theory Spec2Isabelle
  imports Complex_Main
begin

section \<open>Data model: dense row-major matrices over a store of buffers\<close>

text \<open>
  The C variant declares \<^verbatim>\<open>typedef struct { double *data; int rows; int cols; } Matrix;\<close>
  and the C++ variant a class with \<^verbatim>\<open>int m, n; std::vector<double> data;\<close>.
  Both are one record here: \<open>rows\<close> is the C++ field \<open>m\<close>, \<open>cols\<close> the field \<open>n\<close>, and
  \<open>data\<close> is the address of the backing buffer in an explicit store. The kernels never
  assign the header fields; all they mutate is the contents of a buffer, so the store
  maps buffer addresses to buffer contents and the kernels pass the store along.
  Vectors (\<^verbatim>\<open>std::vector<double>\<close>, \<^verbatim>\<open>double *\<close>) are buffers of the same store.

  Elements are doubles in the source. The properties below are properties of exact
  arithmetic, so an element is a \<open>real\<close>.

  Dimensions, indices and block sizes are 32-bit \<open>int\<close>s in the source. The additions
  \<open>ii + block_size\<close> of the blocked kernels and the product \<open>rows * cols\<close> of the
  constructors can leave the range of an \<open>int\<close>; they are \<open>add32\<close> and \<open>mul32\<close> below, which
  give the two's-complement value a 32-bit machine computes (in C and C++ a signed
  overflow is undefined behaviour; the wrapped value is the behaviour the compiled
  programs show).
  The unit-step loops count up to a bound that is itself an \<open>int\<close>, and the offset
  \<open>i * cols + j\<close> of an element inside \<open>[0, rows) \<times> [0, cols)\<close> is below the buffer length,
  so these cannot overflow and stay plain integer arithmetic.
\<close>

definition INT_MAX :: int where
  "INT_MAX = 2147483647"

definition INT_MIN :: int where
  "INT_MIN = - 2147483648"

definition int32 :: "int \<Rightarrow> int" where
  "int32 x = (x + 2147483648) mod 4294967296 - 2147483648"

definition add32 :: "int \<Rightarrow> int \<Rightarrow> int" where
  "add32 a b = int32 (a + b)"

definition mul32 :: "int \<Rightarrow> int \<Rightarrow> int" where
  "mul32 a b = int32 (a * b)"

type_synonym addr = nat

type_synonym heap = "addr \<Rightarrow> real list option"

record Matrix =
  rows :: int
  cols :: int
  data :: addr

text \<open>
  The source indexes without any check; an access outside the buffer is undefined
  behaviour. The model makes every access fallible instead: \<open>IndexOutOfRange\<close> when
  \<open>(i, j)\<close> is outside \<open>[0, rows) \<times> [0, cols)\<close>, \<open>BufferOverrun\<close> when the linear offset
  is outside the buffer, \<open>Dangling\<close> when the address holds no buffer. The other
  errors belong to construction: \<open>NullDeref\<close> is a write through the null pointer that a
  failed \<^verbatim>\<open>malloc\<close> returns, \<open>LengthError\<close> and \<open>BadAlloc\<close> are the exceptions of
  \<^verbatim>\<open>std::vector\<close>.
\<close>

datatype error = IndexOutOfRange | BufferOverrun | Dangling | NullDeref | LengthError | BadAlloc

fun ebind :: "error + 'a \<Rightarrow> ('a \<Rightarrow> error + 'b) \<Rightarrow> error + 'b" where
  "ebind (Inl e) f = Inl e"
| "ebind (Inr x) f = f x"

text \<open>\<^verbatim>\<open>p[k]\<close> as an rvalue, and \<^verbatim>\<open>p[k] = v\<close>, on a buffer of doubles.\<close>

definition buf_read :: "heap \<Rightarrow> addr \<Rightarrow> int \<Rightarrow> error + real" where
  "buf_read h p k =
     (case h p of
        None \<Rightarrow> Inl Dangling
      | Some buf \<Rightarrow>
          if 0 \<le> k \<and> k < int (length buf) then Inr (buf ! nat k) else Inl BufferOverrun)"

definition buf_write :: "heap \<Rightarrow> addr \<Rightarrow> int \<Rightarrow> real \<Rightarrow> error + heap" where
  "buf_write h p k v =
     (case h p of
        None \<Rightarrow> Inl Dangling
      | Some buf \<Rightarrow>
          if 0 \<le> k \<and> k < int (length buf) then Inr (h(p \<mapsto> buf[nat k := v]))
          else Inl BufferOverrun)"

definition in_range :: "Matrix \<Rightarrow> int \<Rightarrow> int \<Rightarrow> bool" where
  "in_range M i j \<longleftrightarrow> 0 \<le> i \<and> i < rows M \<and> 0 \<le> j \<and> j < cols M"

text \<open>
  \<^verbatim>\<open>Matrix::operator()(i, j)\<close>, \<^verbatim>\<open>data[i * n + j]\<close>, and the macro
  \<^verbatim>\<open>MAT(m, i, j) ((m)->data[(i) * (m)->cols + (j)])\<close>: row-major indexing.
\<close>

definition mat_get :: "heap \<Rightarrow> Matrix \<Rightarrow> int \<Rightarrow> int \<Rightarrow> error + real" where
  "mat_get h M i j =
     (if in_range M i j then buf_read h (data M) (i * cols M + j) else Inl IndexOutOfRange)"

definition mat_set :: "heap \<Rightarrow> Matrix \<Rightarrow> int \<Rightarrow> int \<Rightarrow> real \<Rightarrow> error + heap" where
  "mat_set h M i j v =
     (if in_range M i j then buf_write h (data M) (i * cols M + j) v else Inl IndexOutOfRange)"

text \<open>The value of an element for use in specifications (0 where the access fails).\<close>

definition mat_at :: "heap \<Rightarrow> Matrix \<Rightarrow> int \<Rightarrow> int \<Rightarrow> real" where
  "mat_at h M i j = (case mat_get h M i j of Inl e \<Rightarrow> 0 | Inr v \<Rightarrow> v)"

definition vec_at :: "heap \<Rightarrow> addr \<Rightarrow> int \<Rightarrow> real" where
  "vec_at h x j = (case buf_read h x j of Inl e \<Rightarrow> 0 | Inr v \<Rightarrow> v)"

text \<open>The invariant of the data model: the buffer length equals \<open>rows * cols\<close>.\<close>

definition wf_matrix :: "heap \<Rightarrow> Matrix \<Rightarrow> bool" where
  "wf_matrix h M \<longleftrightarrow>
     0 \<le> rows M \<and> 0 \<le> cols M \<and>
     (case h (data M) of None \<Rightarrow> False | Some buf \<Rightarrow> int (length buf) = rows M * cols M)"

definition wf_vector :: "heap \<Rightarrow> addr \<Rightarrow> int \<Rightarrow> bool" where
  "wf_vector h x n \<longleftrightarrow> (case h x of None \<Rightarrow> False | Some buf \<Rightarrow> int (length buf) = n)"

section \<open>Loops\<close>

text \<open>\<^verbatim>\<open>for (int i = lo; i < hi; i++) body(i);\<close> The first failing access ends the run.\<close>

function for_loop :: "int \<Rightarrow> int \<Rightarrow> (int \<Rightarrow> 's \<Rightarrow> error + 's) \<Rightarrow> 's \<Rightarrow> error + 's" where
  "for_loop i hi body s =
     (if i < hi then
        (case body i s of Inl e \<Rightarrow> Inl e | Inr s' \<Rightarrow> for_loop (i + 1) hi body s')
      else Inr s)"
  by pat_completeness auto
termination
  by (relation "measure (\<lambda>(i, hi, body, s). nat (hi - i))") auto

declare for_loop.simps [simp del]

text \<open>
  \<^verbatim>\<open>for (int ii = lo; ii < hi; ii += step) body(ii);\<close> With \<open>step \<le> 0\<close>, or when the
  addition wraps around, the index need not reach \<open>hi\<close>, so the loop is a partial
  function: \<open>None\<close> is a run that does not return.
\<close>

partial_function (option) for_step ::
  "int \<Rightarrow> int \<Rightarrow> int \<Rightarrow> (int \<Rightarrow> 's \<Rightarrow> (error + 's) option) \<Rightarrow> 's \<Rightarrow> (error + 's) option" where
  "for_step ii hi step body s =
     (if ii < hi then
        (case body ii s of
           None \<Rightarrow> None
         | Some (Inl e) \<Rightarrow> Some (Inl e)
         | Some (Inr s') \<Rightarrow> for_step (add32 ii step) hi step body s')
      else Some (Inr s))"

declare for_step.simps [code]

section \<open>The naive loop orderings, C++ variant\<close>

text \<open>The statement \<^verbatim>\<open>C(i, j) += A(i, k) * B(k, j);\<close> shared by all C++ kernels.\<close>

definition madd :: "Matrix \<Rightarrow> Matrix \<Rightarrow> Matrix \<Rightarrow> int \<Rightarrow> int \<Rightarrow> int \<Rightarrow> heap \<Rightarrow> error + heap" where
  "madd A B C i j k h =
     ebind (mat_get h A i k) (\<lambda>a.
     ebind (mat_get h B k j) (\<lambda>b.
     ebind (mat_get h C i j) (\<lambda>c.
     mat_set h C i j (c + a * b))))"

definition gemm_ijk :: "Matrix \<Rightarrow> Matrix \<Rightarrow> Matrix \<Rightarrow> heap \<Rightarrow> error + heap" where
  "gemm_ijk A B C =
     for_loop 0 (rows A) (\<lambda>i.
       for_loop 0 (cols B) (\<lambda>j.
         for_loop 0 (cols A) (\<lambda>k. madd A B C i j k)))"

definition gemm_jik :: "Matrix \<Rightarrow> Matrix \<Rightarrow> Matrix \<Rightarrow> heap \<Rightarrow> error + heap" where
  "gemm_jik A B C =
     for_loop 0 (cols B) (\<lambda>j.
       for_loop 0 (rows A) (\<lambda>i.
         for_loop 0 (cols A) (\<lambda>k. madd A B C i j k)))"

definition gemm_ikj :: "Matrix \<Rightarrow> Matrix \<Rightarrow> Matrix \<Rightarrow> heap \<Rightarrow> error + heap" where
  "gemm_ikj A B C =
     for_loop 0 (rows A) (\<lambda>i.
       for_loop 0 (cols A) (\<lambda>k.
         for_loop 0 (cols B) (\<lambda>j. madd A B C i j k)))"

definition gemm_jki :: "Matrix \<Rightarrow> Matrix \<Rightarrow> Matrix \<Rightarrow> heap \<Rightarrow> error + heap" where
  "gemm_jki A B C =
     for_loop 0 (cols B) (\<lambda>j.
       for_loop 0 (cols A) (\<lambda>k.
         for_loop 0 (rows A) (\<lambda>i. madd A B C i j k)))"

definition gemm_kij :: "Matrix \<Rightarrow> Matrix \<Rightarrow> Matrix \<Rightarrow> heap \<Rightarrow> error + heap" where
  "gemm_kij A B C =
     for_loop 0 (cols A) (\<lambda>k.
       for_loop 0 (rows A) (\<lambda>i.
         for_loop 0 (cols B) (\<lambda>j. madd A B C i j k)))"

definition gemm_kji :: "Matrix \<Rightarrow> Matrix \<Rightarrow> Matrix \<Rightarrow> heap \<Rightarrow> error + heap" where
  "gemm_kji A B C =
     for_loop 0 (cols A) (\<lambda>k.
       for_loop 0 (cols B) (\<lambda>j.
         for_loop 0 (rows A) (\<lambda>i. madd A B C i j k)))"

section \<open>The naive loop orderings, C variant\<close>

text \<open>
  The C kernels take \<open>C\<close> first. Three of them go through inner kernels, two of which
  read one operand into a local (\<^verbatim>\<open>double a_ik = MAT(A, i, k);\<close>) before their loop.
\<close>

definition inner_dot_product ::
  "Matrix \<Rightarrow> Matrix \<Rightarrow> Matrix \<Rightarrow> int \<Rightarrow> int \<Rightarrow> int \<Rightarrow> heap \<Rightarrow> error + heap" where
  "inner_dot_product C A B i j r =
     for_loop 0 r (\<lambda>k h.
       ebind (mat_get h A i k) (\<lambda>a.
       ebind (mat_get h B k j) (\<lambda>b.
       ebind (mat_get h C i j) (\<lambda>c.
       mat_set h C i j (c + a * b)))))"

definition inner_saxpy_column ::
  "Matrix \<Rightarrow> Matrix \<Rightarrow> Matrix \<Rightarrow> int \<Rightarrow> int \<Rightarrow> int \<Rightarrow> heap \<Rightarrow> error + heap" where
  "inner_saxpy_column C A B j k m h =
     ebind (mat_get h B k j) (\<lambda>b_kj.
       for_loop 0 m (\<lambda>i h.
         ebind (mat_get h A i k) (\<lambda>a.
         ebind (mat_get h C i j) (\<lambda>c.
         mat_set h C i j (c + a * b_kj)))) h)"

definition inner_saxpy_row ::
  "Matrix \<Rightarrow> Matrix \<Rightarrow> Matrix \<Rightarrow> int \<Rightarrow> int \<Rightarrow> int \<Rightarrow> heap \<Rightarrow> error + heap" where
  "inner_saxpy_row C A B i k n h =
     ebind (mat_get h A i k) (\<lambda>a_ik.
       for_loop 0 n (\<lambda>j h.
         ebind (mat_get h B k j) (\<lambda>b.
         ebind (mat_get h C i j) (\<lambda>c.
         mat_set h C i j (c + a_ik * b)))) h)"

definition matmul_ijk :: "Matrix \<Rightarrow> Matrix \<Rightarrow> Matrix \<Rightarrow> heap \<Rightarrow> error + heap" where
  "matmul_ijk C A B =
     (let m = rows A; r = cols A; n = cols B in
      for_loop 0 m (\<lambda>i. for_loop 0 n (\<lambda>j. inner_dot_product C A B i j r)))"

definition matmul_jik :: "Matrix \<Rightarrow> Matrix \<Rightarrow> Matrix \<Rightarrow> heap \<Rightarrow> error + heap" where
  "matmul_jik C A B =
     (let m = rows A; r = cols A; n = cols B in
      for_loop 0 n (\<lambda>j. for_loop 0 m (\<lambda>i. inner_dot_product C A B i j r)))"

definition matmul_saxpy :: "Matrix \<Rightarrow> Matrix \<Rightarrow> Matrix \<Rightarrow> heap \<Rightarrow> error + heap" where
  "matmul_saxpy C A B =
     (let m = rows A; r = cols A; n = cols B in
      for_loop 0 n (\<lambda>j. for_loop 0 r (\<lambda>k. inner_saxpy_column C A B j k m)))"

definition matmul_ikj :: "Matrix \<Rightarrow> Matrix \<Rightarrow> Matrix \<Rightarrow> heap \<Rightarrow> error + heap" where
  "matmul_ikj C A B =
     (let m = rows A; r = cols A; n = cols B in
      for_loop 0 m (\<lambda>i. for_loop 0 r (\<lambda>k. inner_saxpy_row C A B i k n)))"

definition matmul_outer_product :: "Matrix \<Rightarrow> Matrix \<Rightarrow> Matrix \<Rightarrow> heap \<Rightarrow> error + heap" where
  "matmul_outer_product C A B =
     (let m = rows A; r = cols A; n = cols B in
      for_loop 0 r (\<lambda>k.
        for_loop 0 m (\<lambda>i.
          for_loop 0 n (\<lambda>j h.
            ebind (mat_get h A i k) (\<lambda>a.
            ebind (mat_get h B k j) (\<lambda>b.
            ebind (mat_get h C i j) (\<lambda>c.
            mat_set h C i j (c + a * b))))))))"

definition matmul_kij :: "Matrix \<Rightarrow> Matrix \<Rightarrow> Matrix \<Rightarrow> heap \<Rightarrow> error + heap" where
  "matmul_kij C A B =
     (let m = rows A; r = cols A; n = cols B in
      for_loop 0 r (\<lambda>k. for_loop 0 m (\<lambda>i. inner_saxpy_row C A B i k n)))"

definition matmul_ikj_inlined :: "Matrix \<Rightarrow> Matrix \<Rightarrow> Matrix \<Rightarrow> heap \<Rightarrow> error + heap" where
  "matmul_ikj_inlined C A B =
     (let m = rows A; r = cols A; n = cols B in
      for_loop 0 m (\<lambda>i.
        for_loop 0 r (\<lambda>k h.
          ebind (mat_get h A i k) (\<lambda>a_ik.
            for_loop 0 n (\<lambda>j h.
              ebind (mat_get h B k j) (\<lambda>b.
              ebind (mat_get h C i j) (\<lambda>c.
              mat_set h C i j (c + a_ik * b)))) h))))"

section \<open>The blocked kernel\<close>

text \<open>
  The tile loops step by \<open>block_size\<close> (\<^verbatim>\<open>ii += block_size\<close>, the step of \<open>for_step\<close>), and
  the tile bounds are \<^verbatim>\<open>std::min(ii + block_size, m)\<close> in the C++ variant and
  \<^verbatim>\<open>(ii + block_size < m) ? ii + block_size : m\<close> in the C variant; each of these additions
  is an \<open>int\<close> addition, \<open>add32\<close>.
\<close>

subsection \<open>C++ variant: one function per loop\<close>

definition inner_block_inner_loop ::
  "Matrix \<Rightarrow> Matrix \<Rightarrow> Matrix \<Rightarrow> int \<Rightarrow> int \<Rightarrow> int \<Rightarrow> int \<Rightarrow> heap \<Rightarrow> error + heap" where
  "inner_block_inner_loop A B C i k jj j_max =
     for_loop jj j_max (\<lambda>j. madd A B C i j k)"

definition inner_block_middle_loop ::
  "Matrix \<Rightarrow> Matrix \<Rightarrow> Matrix \<Rightarrow> int \<Rightarrow> int \<Rightarrow> int \<Rightarrow> int \<Rightarrow> int \<Rightarrow> heap \<Rightarrow> error + heap" where
  "inner_block_middle_loop A B C i kk k_max j_max jj =
     for_loop kk k_max (\<lambda>k. inner_block_inner_loop A B C i k jj j_max)"

definition inner_block_outer_loop ::
  "Matrix \<Rightarrow> Matrix \<Rightarrow> Matrix \<Rightarrow> int \<Rightarrow> int \<Rightarrow> int \<Rightarrow> int \<Rightarrow> int \<Rightarrow> int \<Rightarrow> heap
     \<Rightarrow> error + heap" where
  "inner_block_outer_loop A B C ii kk jj i_max j_max k_max =
     for_loop ii i_max (\<lambda>i. inner_block_middle_loop A B C i kk k_max j_max jj)"

definition outer_block_inner_loop ::
  "Matrix \<Rightarrow> Matrix \<Rightarrow> Matrix \<Rightarrow> int \<Rightarrow> int \<Rightarrow> int \<Rightarrow> int \<Rightarrow> int \<Rightarrow> int \<Rightarrow> heap
     \<Rightarrow> (error + heap) option" where
  "outer_block_inner_loop A B C ii jj block_size m n r =
     for_step 0 r block_size (\<lambda>kk h.
       (let i_max = min (add32 ii block_size) m;
            j_max = min (add32 jj block_size) n;
            k_max = min (add32 kk block_size) r
        in Some (inner_block_outer_loop A B C ii kk jj i_max j_max k_max h)))"

definition outer_block_middle_loop ::
  "Matrix \<Rightarrow> Matrix \<Rightarrow> Matrix \<Rightarrow> int \<Rightarrow> int \<Rightarrow> int \<Rightarrow> int \<Rightarrow> int \<Rightarrow> heap
     \<Rightarrow> (error + heap) option" where
  "outer_block_middle_loop A B C ii block_size m n r =
     for_step 0 n block_size (\<lambda>jj. outer_block_inner_loop A B C ii jj block_size m n r)"

definition outer_block_outer_loop ::
  "Matrix \<Rightarrow> Matrix \<Rightarrow> Matrix \<Rightarrow> int \<Rightarrow> int \<Rightarrow> int \<Rightarrow> int \<Rightarrow> heap \<Rightarrow> (error + heap) option" where
  "outer_block_outer_loop A B C block_size m n r =
     for_step 0 m block_size (\<lambda>ii. outer_block_middle_loop A B C ii block_size m n r)"

definition gemm_blocked ::
  "Matrix \<Rightarrow> Matrix \<Rightarrow> Matrix \<Rightarrow> int \<Rightarrow> heap \<Rightarrow> (error + heap) option" where
  "gemm_blocked A B C block_size =
     (let m = rows A; n = cols B; r = cols A in
      outer_block_outer_loop A B C block_size m n r)"

subsection \<open>C variant: six loops in one function\<close>

definition matmul_blocked ::
  "Matrix \<Rightarrow> Matrix \<Rightarrow> Matrix \<Rightarrow> int \<Rightarrow> heap \<Rightarrow> (error + heap) option" where
  "matmul_blocked C A B block_size =
     (let m = rows A; r = cols A; n = cols B in
      for_step 0 m block_size (\<lambda>ii.
        for_step 0 n block_size (\<lambda>jj.
          for_step 0 r block_size (\<lambda>kk h.
            (let i_end = (if add32 ii block_size < m then add32 ii block_size else m);
                 j_end = (if add32 jj block_size < n then add32 jj block_size else n);
                 k_end = (if add32 kk block_size < r then add32 kk block_size else r)
             in Some (for_loop ii i_end (\<lambda>i.
                        for_loop kk k_end (\<lambda>k h.
                          ebind (mat_get h A i k) (\<lambda>a_ik.
                            for_loop jj j_end (\<lambda>j h.
                              ebind (mat_get h B k j) (\<lambda>b.
                              ebind (mat_get h C i j) (\<lambda>c.
                              mat_set h C i j (c + a_ik * b)))) h))) h))))))"

section \<open>Gaxpy\<close>

text \<open>\<^verbatim>\<open>y[i] += A(i, j) * x[j];\<close> on the vectors \<open>x\<close> and \<open>y\<close>.\<close>

definition vadd :: "Matrix \<Rightarrow> addr \<Rightarrow> addr \<Rightarrow> int \<Rightarrow> int \<Rightarrow> heap \<Rightarrow> error + heap" where
  "vadd A x y i j h =
     ebind (mat_get h A i j) (\<lambda>a.
     ebind (buf_read h x j) (\<lambda>xj.
     ebind (buf_read h y i) (\<lambda>yi.
     buf_write h y i (yi + a * xj))))"

definition gaxpy_row_oriented :: "Matrix \<Rightarrow> addr \<Rightarrow> addr \<Rightarrow> heap \<Rightarrow> error + heap" where
  "gaxpy_row_oriented A x y =
     for_loop 0 (rows A) (\<lambda>i. for_loop 0 (cols A) (\<lambda>j. vadd A x y i j))"

definition gaxpy_column_oriented :: "Matrix \<Rightarrow> addr \<Rightarrow> addr \<Rightarrow> heap \<Rightarrow> error + heap" where
  "gaxpy_column_oriented A x y =
     for_loop 0 (cols A) (\<lambda>j. for_loop 0 (rows A) (\<lambda>i. vadd A x y i j))"

definition matrix_vector_mult :: "Matrix \<Rightarrow> addr \<Rightarrow> addr \<Rightarrow> heap \<Rightarrow> error + heap" where
  "matrix_vector_mult A x y =
     for_loop 0 (rows A) (\<lambda>i. for_loop 0 (cols A) (\<lambda>j. vadd A x y i j))"

section \<open>Matrix construction and random fill\<close>

text \<open>
  The C constructor:
  \<^verbatim>\<open>Matrix *m = malloc(sizeof(Matrix)); m->rows = rows; m->cols = cols;
  m->data = calloc(rows * cols, sizeof(double)); return m;\<close>
  Neither allocation is checked. The allocator is a parameter: \<open>malloc_ok\<close> says whether
  the header was allocated, \<open>calloc_result\<close> is the address of the zeroed buffer that
  \<^verbatim>\<open>calloc\<close> returns, or \<open>None\<close> for a null pointer. The product is an \<open>int\<close>; a negative
  one converts to a size no allocator grants. A matrix whose \<open>data\<close> is null has the
  address \<open>NULL\<close>; the constructor leaves the store as it is in that case, and the
  allocator never places a buffer at \<open>NULL\<close>.
\<close>

definition NULL :: addr where
  "NULL = 0"

definition create_matrix ::
  "int \<Rightarrow> int \<Rightarrow> bool \<Rightarrow> addr option \<Rightarrow> heap \<Rightarrow> error + Matrix \<times> heap" where
  "create_matrix rows' cols' malloc_ok calloc_result h =
     (if \<not> malloc_ok then Inl NullDeref
      else
        (case (if mul32 rows' cols' < 0 then None else calloc_result) of
           None \<Rightarrow> Inr (\<lparr>rows = rows', cols = cols', data = NULL\<rparr>, h)
         | Some p \<Rightarrow>
             Inr (\<lparr>rows = rows', cols = cols', data = p\<rparr>,
                  h(p \<mapsto> replicate (nat (mul32 rows' cols')) 0))))"

text \<open>
  The C++ constructor \<^verbatim>\<open>Matrix(int rows, int cols) : m(rows), n(cols), data(rows * cols)\<close>
  value-initialises a vector of \<open>rows * cols\<close> doubles, the product again an \<open>int\<close>. A
  negative count is beyond \<^verbatim>\<open>max_size()\<close> (\<^verbatim>\<open>std::length_error\<close>); \<open>alloc\<close> is the address
  the allocator returns, or \<open>None\<close> when it throws \<^verbatim>\<open>std::bad_alloc\<close>.
\<close>

definition Matrix_Matrix :: "int \<Rightarrow> int \<Rightarrow> addr option \<Rightarrow> heap \<Rightarrow> error + Matrix \<times> heap" where
  "Matrix_Matrix rows' cols' alloc h =
     (if mul32 rows' cols' < 0 then Inl LengthError
      else
        (case alloc of
           None \<Rightarrow> Inl BadAlloc
         | Some p \<Rightarrow>
             Inr (\<lparr>rows = rows', cols = cols', data = p\<rparr>,
                  h(p \<mapsto> replicate (nat (mul32 rows' cols')) 0))))"

text \<open>
  The C fill routines draw from \<^verbatim>\<open>rand()\<close>, whose results lie between 0 and the
  library constant \<^verbatim>\<open>RAND_MAX\<close>. Both are parameters: \<open>rand k\<close> is the value of the
  \<open>k\<close>-th call made by the routine. The statement is
  \<^verbatim>\<open>m->data[i] = (double)rand() / RAND_MAX * 2.0 - 1.0;\<close>
\<close>

definition rand_value :: "int \<Rightarrow> int \<Rightarrow> real" where
  "rand_value RAND_MAX r = real_of_int r / real_of_int RAND_MAX * 2.0 - 1.0"

text \<open>The routine of the single-file program: \<^verbatim>\<open>for (int i = 0; i < m->rows * m->cols; i++)\<close>.\<close>

definition init_random_matrix :: "int \<Rightarrow> (nat \<Rightarrow> int) \<Rightarrow> Matrix \<Rightarrow> heap \<Rightarrow> error + heap" where
  "init_random_matrix RAND_MAX rand M =
     for_loop 0 (rows M * cols M) (\<lambda>i h.
       buf_write h (data M) i (rand_value RAND_MAX (rand (nat i))))"

text \<open>The routine of \<^verbatim>\<open>matrix_utils.c\<close>: \<^verbatim>\<open>for (int i = 0; i < m->rows; i++)\<close>.\<close>

definition int_random_matrix :: "int \<Rightarrow> (nat \<Rightarrow> int) \<Rightarrow> Matrix \<Rightarrow> heap \<Rightarrow> error + heap" where
  "int_random_matrix RAND_MAX rand M =
     for_loop 0 (rows M) (\<lambda>i h.
       buf_write h (data M) i (rand_value RAND_MAX (rand (nat i))))"

text \<open>
  \<^verbatim>\<open>Matrix::fill_random\<close>: \<^verbatim>\<open>for (auto& val : data) val = dis(gen);\<close> where \<open>dis\<close> is a
  \<^verbatim>\<open>std::uniform_real_distribution<>(-1.0, 1.0)\<close>; \<open>dis k\<close> is its \<open>k\<close>-th draw.
\<close>

definition fill_random :: "(nat \<Rightarrow> real) \<Rightarrow> Matrix \<Rightarrow> heap \<Rightarrow> error + heap" where
  "fill_random dis M h =
     (case h (data M) of
        None \<Rightarrow> Inl Dangling
      | Some buf \<Rightarrow> Inr (h(data M \<mapsto> map dis [0..<length buf])))"

section \<open>Specification vocabulary\<close>

text \<open>A run of a loop body over an explicit list of index values.\<close>

fun run :: "('t \<Rightarrow> 's \<Rightarrow> error + 's) \<Rightarrow> 't list \<Rightarrow> 's \<Rightarrow> error + 's" where
  "run f [] s = Inr s"
| "run f (t # ts) s = (case f t s of Inl e \<Rightarrow> Inl e | Inr s' \<Rightarrow> run f ts s')"

text \<open>The tile origins \<open>ii, ii + step, ii + 2 * step, \<dots>\<close> below \<open>hi\<close>, for a positive step.\<close>

function tile_starts :: "int \<Rightarrow> int \<Rightarrow> int \<Rightarrow> int list" where
  "tile_starts ii hi step =
     (if ii < hi \<and> 0 < step then ii # tile_starts (ii + step) hi step else [])"
  by pat_completeness auto
termination
  by (relation "measure (\<lambda>(ii, hi, step). nat (hi - ii))") auto

declare tile_starts.simps [simp del]

text \<open>
  The tile loop over \<open>[0, d)\<close> with block size \<open>bs\<close> stays inside the range of an \<open>int\<close>:
  either one tile covers the dimension, or the last tile origin, which is below \<open>d\<close>,
  plus \<open>bs\<close> does not exceed \<open>INT_MAX\<close>.
\<close>

definition tiles_fit :: "int \<Rightarrow> int \<Rightarrow> bool" where
  "tiles_fit d bs \<longleftrightarrow> bs \<le> INT_MAX \<and> (d \<le> bs \<or> d + bs \<le> INT_MAX + 1)"

text \<open>
  \<open>adds_into h0 c len f \<phi>\<close>: started in \<open>h0\<close> with any buffer of length \<open>len\<close> at \<open>c\<close>, the
  computation \<open>f\<close> succeeds, adds \<open>\<phi> p\<close> to the element at offset \<open>p\<close> of that buffer and
  changes nothing else.
\<close>

definition adds_into ::
  "heap \<Rightarrow> addr \<Rightarrow> nat \<Rightarrow> (heap \<Rightarrow> error + heap) \<Rightarrow> (nat \<Rightarrow> real) \<Rightarrow> bool" where
  "adds_into h0 c len f \<phi> \<longleftrightarrow>
     (\<forall>buf. length buf = len \<longrightarrow>
        f (h0(c \<mapsto> buf)) = Inr (h0(c \<mapsto> map (\<lambda>p. buf ! p + \<phi> p) [0..<len])))"

text \<open>
  The size contract of the kernels (\<open>A\<close> is \<open>m \<times> r\<close>, \<open>B\<close> is \<open>r \<times> n\<close>, \<open>C\<close> is \<open>m \<times> n\<close>, each
  with a buffer of \<open>rows * cols\<close> elements) together with the ownership rule of the data
  model: the accumulator does not share its buffer with an input.
\<close>

definition gemm_pre :: "heap \<Rightarrow> Matrix \<Rightarrow> Matrix \<Rightarrow> Matrix \<Rightarrow> bool" where
  "gemm_pre h A B C \<longleftrightarrow>
     wf_matrix h A \<and> wf_matrix h B \<and> wf_matrix h C \<and>
     cols A = rows B \<and> rows C = rows A \<and> cols C = cols B \<and>
     data C \<noteq> data A \<and> data C \<noteq> data B"

definition gaxpy_pre :: "heap \<Rightarrow> Matrix \<Rightarrow> addr \<Rightarrow> addr \<Rightarrow> bool" where
  "gaxpy_pre h A x y \<longleftrightarrow>
     wf_matrix h A \<and> wf_vector h x (cols A) \<and> wf_vector h y (rows A) \<and>
     y \<noteq> data A \<and> y \<noteq> x"

text \<open>What one statement \<^verbatim>\<open>C(i, j) += A(i, k) * B(k, j)\<close> adds at offset \<open>p\<close> of \<open>C\<close>.\<close>

definition contrib ::
  "heap \<Rightarrow> Matrix \<Rightarrow> Matrix \<Rightarrow> Matrix \<Rightarrow> int \<Rightarrow> int \<Rightarrow> int \<Rightarrow> nat \<Rightarrow> real" where
  "contrib h A B C i j k p =
     (if p = nat (i * cols C + j) then mat_at h A i k * mat_at h B k j else 0)"

definition delta ::
  "heap \<Rightarrow> Matrix \<Rightarrow> Matrix \<Rightarrow> Matrix \<Rightarrow> int \<Rightarrow> int \<Rightarrow> int \<Rightarrow> nat \<Rightarrow> real" where
  "delta h A B C i j k p =
     (if i = int p div cols B then
        if j = int p mod cols B then
          mat_at h A (int p div cols B) k * mat_at h B k (int p mod cols B)
        else 0
      else 0)"

text \<open>The entry of \<open>A \<cdot> B\<close> that belongs at offset \<open>p\<close> of \<open>C\<close>.\<close>

definition dotp :: "heap \<Rightarrow> Matrix \<Rightarrow> Matrix \<Rightarrow> nat \<Rightarrow> real" where
  "dotp h A B p =
     (\<Sum>k = 0..<cols A. mat_at h A (int p div cols B) k * mat_at h B k (int p mod cols B))"

text \<open>The entry of \<open>A \<cdot> x\<close> that belongs at offset \<open>p\<close> of \<open>y\<close>.\<close>

definition gaxpy_row :: "heap \<Rightarrow> Matrix \<Rightarrow> addr \<Rightarrow> nat \<Rightarrow> real" where
  "gaxpy_row h A x p = (\<Sum>j = 0..<cols A. mat_at h A (int p) j * vec_at h x j)"

text \<open>
  \<open>safe I f\<close>: from every state that satisfies \<open>I\<close> the computation \<open>f\<close> returns without
  an error, in a state that satisfies \<open>I\<close> again.
\<close>

definition safe :: "('s \<Rightarrow> bool) \<Rightarrow> ('s \<Rightarrow> error + 's) \<Rightarrow> bool" where
  "safe I f \<longleftrightarrow> (\<forall>s. I s \<longrightarrow> (\<exists>s'. f s = Inr s' \<and> I s'))"

text \<open>The invariants the kernels keep: the buffers keep their lengths.\<close>

definition gemm_inv :: "Matrix \<Rightarrow> Matrix \<Rightarrow> Matrix \<Rightarrow> heap \<Rightarrow> bool" where
  "gemm_inv A B C h \<longleftrightarrow> wf_matrix h A \<and> wf_matrix h B \<and> wf_matrix h C"


text \<open>
  \<open>unchanged_except c h h'\<close>: the stores \<open>h\<close> and \<open>h'\<close> differ at most in the contents of the
  buffer at \<open>c\<close>, whose length is the same in both. \<open>writes_only c f\<close>: every successful
  run of \<open>f\<close> keeps the store unchanged except at \<open>c\<close>.
\<close>

definition unchanged_except :: "addr \<Rightarrow> heap \<Rightarrow> heap \<Rightarrow> bool" where
  "unchanged_except c h h' \<longleftrightarrow>
     (\<forall>p. p \<noteq> c \<longrightarrow> h' p = h p) \<and> map_option length (h' c) = map_option length (h c)"

definition writes_only :: "addr \<Rightarrow> (heap \<Rightarrow> error + heap) \<Rightarrow> bool" where
  "writes_only c f \<longleftrightarrow> (\<forall>h h'. f h = Inr h' \<longrightarrow> unchanged_except c h h')"

section \<open>Test fixtures\<close>

text \<open>The matrices \<open>[[1, 2], [3, 4]]\<close> and \<open>[[5, 6], [7, 8]]\<close> and an accumulator of ones.\<close>

definition exA :: Matrix where "exA = \<lparr>rows = 2, cols = 2, data = 0\<rparr>"
definition exB :: Matrix where "exB = \<lparr>rows = 2, cols = 2, data = 1\<rparr>"
definition exC :: Matrix where "exC = \<lparr>rows = 2, cols = 2, data = 2\<rparr>"

definition exh :: heap where
  "exh = [0 \<mapsto> [1, 2, 3, 4], 1 \<mapsto> [5, 6, 7, 8], 2 \<mapsto> [1, 1, 1, 1]]"

text \<open>
  The gaxpy test: \<open>A = [[1, 2], [3, 4]]\<close> at address 0, \<open>x = [1, 1]\<close> at address 1 and
  \<open>y = [10, 20]\<close> at address 2.
\<close>

definition gxA :: Matrix where "gxA = \<lparr>rows = 2, cols = 2, data = 0\<rparr>"

definition gxh :: heap where
  "gxh = [0 \<mapsto> [1, 2, 3, 4], 1 \<mapsto> [1, 1], 2 \<mapsto> [10, 20]]"

text \<open>The same matrices with the vectors \<open>[1, 1]\<close> at address 3 and \<open>[10, 20]\<close> at address 4.\<close>

definition exhv :: heap where
  "exhv = [0 \<mapsto> [1, 2, 3, 4], 1 \<mapsto> [5, 6, 7, 8], 2 \<mapsto> [1, 1, 1, 1], 3 \<mapsto> [1, 1], 4 \<mapsto> [10, 20]]"

text \<open>A \<open>2 \<times> 2\<close> matrix whose buffer holds stale values, for the fill routines.\<close>

definition rxM :: Matrix where "rxM = \<lparr>rows = 2, cols = 2, data = 0\<rparr>"
definition rxh :: heap where "rxh = [0 \<mapsto> [5, 5, 5, 5]]"

text \<open>A store that holds only the two input matrices, before the accumulator is constructed.\<close>

definition cxh :: heap where
  "cxh = [0 \<mapsto> [1, 2, 3, 4], 1 \<mapsto> [5, 6, 7, 8]]"

text \<open>
  Inputs on which the tile index leaves the range of an \<open>int\<close>: \<open>2\<^sup>3\<^sup>0 + 1\<close> rows, to be
  tiled with a block size of \<open>2\<^sup>3\<^sup>0\<close>. In the first every matrix has one column and all
  elements are 0; in the second the matrices have no column, so the buffers are empty.
\<close>

definition bgA :: Matrix where "bgA = \<lparr>rows = 1073741825, cols = 1, data = 1\<rparr>"
definition bgB :: Matrix where "bgB = \<lparr>rows = 1, cols = 1, data = 2\<rparr>"
definition bgC :: Matrix where "bgC = \<lparr>rows = 1073741825, cols = 1, data = 3\<rparr>"

definition bgh :: heap where
  "bgh = [1 \<mapsto> replicate 1073741825 0, 2 \<mapsto> [0], 3 \<mapsto> replicate 1073741825 0]"

definition ovA :: Matrix where "ovA = \<lparr>rows = 1073741825, cols = 0, data = 1\<rparr>"
definition ovB :: Matrix where "ovB = \<lparr>rows = 0, cols = 0, data = 2\<rparr>"
definition ovC :: Matrix where "ovC = \<lparr>rows = 1073741825, cols = 0, data = 3\<rparr>"

definition ovh :: heap where
  "ovh = [1 \<mapsto> [], 2 \<mapsto> [], 3 \<mapsto> []]"

section \<open>Loops as runs over index lists\<close>

lemma for_loop_run: "for_loop lo hi body s = run body [lo..hi - 1] s"
proof (induction lo hi body s rule: for_loop.induct)
  case (1 i hi body s)
  show ?case
  proof (cases "i < hi")
    case True
    then have "[i..hi - 1] = i # [i + 1..hi - 1]"
      by (simp add: upto_rec1)
    with True 1 show ?thesis
      by (subst for_loop.simps) (simp split: sum.splits)
  next
    case False
    then show ?thesis
      by (subst for_loop.simps) simp
  qed
qed

lemma tile_starts_range:
  "x \<in> set (tile_starts lo hi step) \<Longrightarrow> lo \<le> x \<and> x < hi"
proof (induction lo hi step rule: tile_starts.induct)
  case (1 ii hi step)
  show ?case
  proof (cases "ii < hi \<and> 0 < step")
    case True
    then have "tile_starts ii hi step = ii # tile_starts (ii + step) hi step"
      by (subst tile_starts.simps) simp
    with 1 True show ?thesis by auto
  next
    case False
    then have "tile_starts ii hi step = []" by (subst tile_starts.simps) simp
    with 1 show ?thesis by simp
  qed
qed

lemma run_cong:
  assumes "\<And>x. x \<in> set xs \<Longrightarrow> f x = g x"
  shows "run f xs = run g xs"
proof
  fix s
  show "run f xs s = run g xs s"
    using assms by (induction xs arbitrary: s) (auto split: sum.splits)
qed

lemma add32_id:
  assumes "INT_MIN \<le> x + y" "x + y \<le> INT_MAX"
  shows "add32 x y = x + y"
proof -
  have "0 \<le> x + y + 2147483648" "x + y + 2147483648 < 4294967296"
    using assms by (simp_all add: INT_MIN_def INT_MAX_def)
  then have "(x + y + 2147483648) mod 4294967296 = x + y + 2147483648"
    by (rule mod_pos_pos_trivial)
  then show ?thesis by (simp add: add32_def int32_def)
qed

lemma for_step_run:
  assumes "0 < step" "INT_MIN \<le> lo" "hi + step \<le> INT_MAX + 1"
  shows "for_step lo hi step (\<lambda>x s. Some (body x s)) s = Some (run body (tile_starts lo hi step) s)"
  using assms
proof (induction "nat (hi - lo)" arbitrary: lo s rule: less_induct)
  case less
  show ?case
  proof (cases "lo < hi")
    case True
    have ts: "tile_starts lo hi step = lo # tile_starts (lo + step) hi step"
      using True less.prems by (subst tile_starts.simps) simp
    have nx: "add32 lo step = lo + step"
      using True less.prems by (intro add32_id) auto
    show ?thesis
    proof (cases "body lo s")
      case (Inl e)
      then show ?thesis using True ts by (subst for_step.simps) simp
    next
      case (Inr s')
      have "nat (hi - (lo + step)) < nat (hi - lo)" using True less.prems by linarith
      moreover have "INT_MIN \<le> lo + step" using less.prems by simp
      ultimately have "for_step (lo + step) hi step (\<lambda>x s. Some (body x s)) s' =
          Some (run body (tile_starts (lo + step) hi step) s')"
        using less.prems by (intro less.hyps) auto
      with Inr True ts nx show ?thesis
        by (subst for_step.simps) simp
    qed
  next
    case False
    then have "tile_starts lo hi step = []" by (subst tile_starts.simps) simp
    with False show ?thesis by (subst for_step.simps) simp
  qed
qed

lemma tile_starts_one:
  assumes "0 < step" "hi \<le> step"
  shows "tile_starts 0 hi step = (if 0 < hi then [0] else [])"
proof -
  have "tile_starts (0 + step) hi step = []"
    using assms by (subst tile_starts.simps) simp
  then show ?thesis
    using assms by (subst tile_starts.simps) simp
qed

lemma for_step_run_one:
  assumes "0 < step" "step \<le> INT_MAX" "hi \<le> step"
  shows "for_step 0 hi step (\<lambda>x s. Some (body x s)) s = Some (run body (tile_starts 0 hi step) s)"
proof (cases "0 < hi")
  case True
  have nx: "add32 0 step = step"
    using assms add32_id[of 0 step] by (simp add: INT_MIN_def)
  have ex: "for_step step hi step (\<lambda>x s. Some (body x s)) t = Some (Inr t)" for t
    using assms by (subst for_step.simps) simp
  show ?thesis
    using True nx ex tile_starts_one[OF assms(1,3)]
    by (subst for_step.simps) (simp split: sum.splits)
next
  case False
  with tile_starts_one[OF assms(1,3)] show ?thesis
    by (subst for_step.simps) simp
qed

lemma for_step_tiles:
  assumes "0 < step" "tiles_fit hi step"
  shows "for_step 0 hi step (\<lambda>x s. Some (body x s)) =
         (\<lambda>s. Some (run body (tile_starts 0 hi step) s))"
proof (rule ext)
  fix s
  show "for_step 0 hi step (\<lambda>x s. Some (body x s)) s = Some (run body (tile_starts 0 hi step) s)"
  proof (cases "hi \<le> step")
    case True
    with assms show ?thesis by (intro for_step_run_one) (auto simp: tiles_fit_def)
  next
    case False
    with assms show ?thesis
      by (intro for_step_run) (auto simp: tiles_fit_def INT_MIN_def)
  qed
qed

lemma tile_add32:
  assumes "0 < step" "tiles_fit d step" "x \<in> set (tile_starts 0 d step)"
  shows "add32 x step = x + step"
proof (cases "d \<le> step")
  case True
  with assms(3) tile_starts_one[OF assms(1) True] have "x = 0"
    by (auto split: if_splits)
  with assms show ?thesis
    by (intro add32_id) (auto simp: tiles_fit_def INT_MIN_def)
next
  case False
  have "0 \<le> x" "x < d" using tile_starts_range[OF assms(3)] by auto
  with False assms show ?thesis
    by (intro add32_id) (auto simp: tiles_fit_def INT_MIN_def)
qed

lemma for_step_step:
  assumes "lo < hi" "body lo s = Some (Inr s')"
  shows "for_step lo hi step body s = for_step (add32 lo step) hi step body s'"
  using assms by (subst for_step.simps) simp

lemma for_step_exit:
  assumes "hi \<le> lo"
  shows "for_step lo hi step body s = Some (Inr s)"
  using assms by (subst for_step.simps) simp

lemma for_step_err:
  assumes "lo < hi" "body lo s = Some (Inl e)"
  shows "for_step lo hi step body s = Some (Inl e)"
  using assms by (subst for_step.simps) simp

lemma for_loop_empty: "hi \<le> lo \<Longrightarrow> for_loop lo hi body s = Inr s"
  by (subst for_loop.simps) simp

lemma adds_into_run:
  assumes "\<And>x. x \<in> set xs \<Longrightarrow> adds_into h0 c len (body x) (\<phi> x)"
  shows "adds_into h0 c len (run body xs) (\<lambda>p. \<Sum>x\<leftarrow>xs. \<phi> x p)"
  using assms
proof (induction xs)
  case Nil
  show ?case by (auto simp: adds_into_def map_nth)
next
  case (Cons x xs)
  have bx: "adds_into h0 c len (body x) (\<phi> x)" using Cons.prems by simp
  have rest: "adds_into h0 c len (run body xs) (\<lambda>p. \<Sum>x\<leftarrow>xs. \<phi> x p)"
    using Cons by simp
  show ?case
    unfolding adds_into_def
  proof (intro allI impI)
    fix buf :: "real list" assume len: "length buf = len"
    let ?b1 = "map (\<lambda>p. buf ! p + \<phi> x p) [0..<len]"
    have 1: "body x (h0(c \<mapsto> buf)) = Inr (h0(c \<mapsto> ?b1))"
      using bx len by (simp add: adds_into_def)
    have 2: "run body xs (h0(c \<mapsto> ?b1)) =
        Inr (h0(c \<mapsto> map (\<lambda>p. ?b1 ! p + (\<Sum>x\<leftarrow>xs. \<phi> x p)) [0..<len]))"
      using rest by (simp add: adds_into_def)
    have 3: "map (\<lambda>p. ?b1 ! p + (\<Sum>x\<leftarrow>xs. \<phi> x p)) [0..<len] =
             map (\<lambda>p. buf ! p + (\<Sum>x\<leftarrow>x # xs. \<phi> x p)) [0..<len]"
      by (rule map_cong) (simp_all add: add.assoc)
    show "run body (x # xs) (h0(c \<mapsto> buf)) =
       Inr (h0(c \<mapsto> map (\<lambda>p. buf ! p + (\<Sum>x\<leftarrow>x # xs. \<phi> x p)) [0..<len]))"
      using 1 2 3 by simp
  qed
qed

lemma adds_into_cong:
  assumes "adds_into h0 c len f \<phi>" and "\<And>p. p < len \<Longrightarrow> \<phi> p = \<psi> p"
  shows "adds_into h0 c len f \<psi>"
proof -
  have "map (\<lambda>p. buf ! p + \<phi> p) [0..<len] = map (\<lambda>p. buf ! p + \<psi> p) [0..<len]" for buf :: "real list"
    by (rule map_cong) (simp_all add: assms(2))
  with assms(1) show ?thesis by (simp add: adds_into_def)
qed

lemma adds_into_for_loop:
  assumes "\<And>x. lo \<le> x \<Longrightarrow> x < hi \<Longrightarrow> adds_into h0 c len (body x) (\<phi> x)"
  shows "adds_into h0 c len (for_loop lo hi body) (\<lambda>p. \<Sum>x = lo..<hi. \<phi> x p)"
proof -
  have "adds_into h0 c len (run body [lo..hi - 1]) (\<lambda>p. \<Sum>x\<leftarrow>[lo..hi - 1]. \<phi> x p)"
    by (rule adds_into_run) (simp add: assms)
  moreover have "for_loop lo hi body = run body [lo..hi - 1]"
    by (rule ext) (rule for_loop_run)
  moreover have "{lo..hi - 1} = {lo..<hi}" by auto
  then have "(\<Sum>x\<leftarrow>[lo..hi - 1]. \<phi> x p) = (\<Sum>x = lo..<hi. \<phi> x p)" for p
    using sum_set_upto_conv_sum_list_int[of "\<lambda>x. \<phi> x p" lo "hi - 1"] by simp
  ultimately show ?thesis
    by simp
qed

section \<open>The effect of one update\<close>

lemma offset_bound:
  fixes i j m n :: int
  assumes "0 \<le> i" "i < m" "0 \<le> j" "j < n"
  shows "0 \<le> i * n + j" and "i * n + j < m * n"
proof -
  show "0 \<le> i * n + j" using assms by simp
  have "(i + 1) * n \<le> m * n"
    using assms by (intro mult_right_mono) auto
  then show "i * n + j < m * n" using assms by (simp add: algebra_simps)
qed

lemma mat_get_frame: "data M \<noteq> c \<Longrightarrow> mat_get (h0(c \<mapsto> buf)) M i j = mat_get h0 M i j"
  by (simp add: mat_get_def buf_read_def)

lemma mat_get_ok:
  assumes "wf_matrix h M" "in_range M i j"
  shows "mat_get h M i j = Inr (mat_at h M i j)"
proof -
  obtain buf where buf: "h (data M) = Some buf" "int (length buf) = rows M * cols M"
    using assms(1) by (auto simp: wf_matrix_def split: option.splits)
  have "0 \<le> i * cols M + j" "i * cols M + j < rows M * cols M"
    using assms(2) offset_bound[of i "rows M" j "cols M"] by (auto simp: in_range_def)
  then show ?thesis
    using buf assms(2) by (simp add: mat_at_def mat_get_def buf_read_def)
qed

lemma madd_adds:
  assumes pre: "gemm_pre h0 A B C"
    and i: "0 \<le> i" "i < rows A" and j: "0 \<le> j" "j < cols B" and k: "0 \<le> k" "k < cols A"
  shows "adds_into h0 (data C) (nat (rows C * cols C)) (madd A B C i j k) (contrib h0 A B C i j k)"
  unfolding adds_into_def
proof (intro allI impI)
  fix buf :: "real list"
  let ?len = "nat (rows C * cols C)"
  let ?h = "h0(data C \<mapsto> buf)"
  let ?q = "i * cols C + j"
  assume len: "length buf = ?len"
  have dims: "cols A = rows B" "rows C = rows A" "cols C = cols B"
    and wf: "wf_matrix h0 A" "wf_matrix h0 B" "wf_matrix h0 C"
    and na: "data A \<noteq> data C" "data B \<noteq> data C"
    using pre by (auto simp: gemm_pre_def)
  have rA: "in_range A i k" and rB: "in_range B k j" and rC: "in_range C i j"
    using i j k dims by (auto simp: in_range_def)
  have a: "mat_get ?h A i k = Inr (mat_at h0 A i k)"
    using mat_get_ok[OF wf(1) rA] na(1) by (simp add: mat_get_frame)
  have b: "mat_get ?h B k j = Inr (mat_at h0 B k j)"
    using mat_get_ok[OF wf(2) rB] na(2) by (simp add: mat_get_frame)
  have q: "0 \<le> ?q" "?q < rows C * cols C"
    using rC offset_bound[of i "rows C" j "cols C"] by (auto simp: in_range_def)
  then have qn: "nat ?q < length buf" using len by simp
  have c: "mat_get ?h C i j = Inr (buf ! nat ?q)"
    using rC q qn by (simp add: mat_get_def buf_read_def)
  have w: "mat_set ?h C i j v = Inr (h0(data C \<mapsto> buf[nat ?q := v]))" for v
    using rC q qn by (simp add: mat_set_def buf_write_def)
  have "buf[nat ?q := buf ! nat ?q + mat_at h0 A i k * mat_at h0 B k j] =
        map (\<lambda>p. buf ! p + contrib h0 A B C i j k p) [0..<?len]"
    using len by (intro nth_equalityI) (auto simp: contrib_def nth_list_update)
  then show "madd A B C i j k ?h =
      Inr (h0(data C \<mapsto> map (\<lambda>p. buf ! p + contrib h0 A B C i j k p) [0..<?len]))"
    by (simp add: madd_def a b c w)
qed

lemma adds_into_hoist:
  assumes "\<And>buf. length buf = len \<Longrightarrow> g (h0(c \<mapsto> buf)) = Inr v"
    and "adds_into h0 c len (f v) \<phi>"
  shows "adds_into h0 c len (\<lambda>h. ebind (g h) (\<lambda>a. f a h)) \<phi>"
  using assms by (simp add: adds_into_def)

lemma sum_if_const:
  "(\<Sum>x\<in>S. if c then f x else (0::real)) = (if c then \<Sum>x\<in>S. f x else 0)"
  by simp

lemma delta_ijk:
  fixes g :: "int \<Rightarrow> real"
  assumes "finite I" "finite J" "i0 \<in> I" "j0 \<in> J"
  shows "(\<Sum>i\<in>I. \<Sum>j\<in>J. \<Sum>k\<in>K. if i = i0 then if j = j0 then g k else 0 else 0) = (\<Sum>k\<in>K. g k)"
  using assms by (simp add: sum_if_const sum.delta)

lemma delta_ikj:
  fixes g :: "int \<Rightarrow> real"
  assumes "finite I" "finite J" "i0 \<in> I" "j0 \<in> J"
  shows "(\<Sum>i\<in>I. \<Sum>k\<in>K. \<Sum>j\<in>J. if i = i0 then if j = j0 then g k else 0 else 0) = (\<Sum>k\<in>K. g k)"
  using assms by (simp add: sum_if_const sum.delta)

lemma delta_kji:
  fixes g :: "int \<Rightarrow> real"
  assumes "finite I" "finite J" "i0 \<in> I" "j0 \<in> J"
  shows "(\<Sum>k\<in>K. \<Sum>j\<in>J. \<Sum>i\<in>I. if i = i0 then if j = j0 then g k else 0 else 0) = (\<Sum>k\<in>K. g k)"
  using assms by (simp add: sum_if_const sum.delta)

lemma div_mod_range:
  fixes m n :: int
  assumes "0 \<le> m" "0 \<le> n" "p < nat (m * n)"
  shows "0 \<le> int p div n" "int p div n < m" "0 \<le> int p mod n" "int p mod n < n"
proof -
  have n: "0 < n" using assms by (cases "n = 0") auto
  have p: "int p < m * n" using assms by linarith
  show "0 \<le> int p div n" using n by (simp add: pos_imp_zdiv_nonneg_iff)
  show "int p div n < m"
  proof (rule ccontr)
    assume "\<not> int p div n < m"
    then have "m * n \<le> (int p div n) * n"
      using n by (intro mult_right_mono) auto
    moreover have "(int p div n) * n \<le> int p"
      using n by (metis mult.commute pos_mod_sign add_le_cancel_left add.right_neutral mult_div_mod_eq)
    ultimately show False using p by linarith
  qed
  show "0 \<le> int p mod n" "int p mod n < n" using n by simp_all
qed

lemma contrib_delta:
  assumes "0 \<le> i" "0 \<le> j" "j < cols C"
  shows "contrib h A B C i j k p =
    (if i = int p div cols C then
       if j = int p mod cols C then
         mat_at h A (int p div cols C) k * mat_at h B k (int p mod cols C)
       else 0
     else 0)"
proof -
  have "0 \<le> i * cols C + j" using assms by simp
  then have "p = nat (i * cols C + j) \<longleftrightarrow> int p = i * cols C + j" by linarith
  also have "\<dots> \<longleftrightarrow> i = int p div cols C \<and> j = int p mod cols C"
  proof
    assume "int p = i * cols C + j"
    then show "i = int p div cols C \<and> j = int p mod cols C"
      using assms by simp
  next
    assume "i = int p div cols C \<and> j = int p mod cols C"
    then show "int p = i * cols C + j" by simp
  qed
  finally show ?thesis by (auto simp: contrib_def)
qed

lemma tile_sum:
  fixes F :: "int \<Rightarrow> real"
  shows "0 < step \<Longrightarrow>
    (\<Sum>ii\<leftarrow>tile_starts lo hi step. \<Sum>i = ii..<min (ii + step) hi. F i) = (\<Sum>i = lo..<hi. F i)"
proof (induction lo hi step rule: tile_starts.induct)
  case (1 ii hi step)
  show ?case
  proof (cases "ii < hi")
    case True
    then have ts: "tile_starts ii hi step = ii # tile_starts (ii + step) hi step"
      using "1.prems" by (subst tile_starts.simps) simp
    have ih: "(\<Sum>x\<leftarrow>tile_starts (ii + step) hi step. \<Sum>i = x..<min (x + step) hi. F i) =
        (\<Sum>i = ii + step..<hi. F i)"
      using 1 True by simp
    show ?thesis
    proof (cases "ii + step \<le> hi")
      case le: True
      then have "min (ii + step) hi = ii + step" by simp
      moreover have "{ii..<hi} = {ii..<ii + step} \<union> {ii + step..<hi}"
        using le "1.prems" by auto
      then have "sum F {ii..<ii + step} + sum F {ii + step..<hi} = sum F {ii..<hi}"
        by (simp add: sum.union_disjoint)
      ultimately show ?thesis using ts ih by simp
    next
      case gt: False
      then have "min (ii + step) hi = hi" by simp
      moreover have "sum F {ii + step..<hi} = 0" using gt by simp
      ultimately show ?thesis using ts ih by simp
    qed
  next
    case False
    then have "tile_starts ii hi step = []" by (subst tile_starts.simps) simp
    with False show ?thesis by simp
  qed
qed

lemma tile_delta:
  fixes X :: real
  assumes "0 < step" "lo \<le> x0" "x0 < hi"
  shows "(\<Sum>ii\<leftarrow>tile_starts lo hi step. if x0 \<in> {ii..<min (ii + step) hi} then X else 0) = X"
proof -
  have "(\<Sum>ii\<leftarrow>tile_starts lo hi step. if x0 \<in> {ii..<min (ii + step) hi} then X else 0) =
        (\<Sum>ii\<leftarrow>tile_starts lo hi step. \<Sum>i = ii..<min (ii + step) hi. if i = x0 then X else 0)"
    by (simp add: sum.delta)
  also have "\<dots> = (\<Sum>i = lo..<hi. if i = x0 then X else 0)"
    by (rule tile_sum[OF assms(1)])
  also have "\<dots> = X" using assms by (simp add: sum.delta)
  finally show ?thesis .
qed

lemma delta_in:
  fixes g :: "int \<Rightarrow> real"
  assumes "finite I" "finite J"
  shows "(\<Sum>i\<in>I. \<Sum>k\<in>K. \<Sum>j\<in>J. if i = i0 then if j = j0 then g k else 0 else 0) =
         (if i0 \<in> I then if j0 \<in> J then \<Sum>k\<in>K. g k else 0 else 0)"
  using assms by (simp add: sum_if_const sum.delta)

lemma sum_list_if_const:
  "(\<Sum>x\<leftarrow>xs. if c then f x else (0::real)) = (if c then \<Sum>x\<leftarrow>xs. f x else 0)"
  by simp

lemma delta_blocked:
  fixes g :: "int \<Rightarrow> real"
  assumes bs: "0 < bs" and i0: "0 \<le> i0" "i0 < m" and j0: "0 \<le> j0" "j0 < n"
  shows "(\<Sum>ii\<leftarrow>tile_starts 0 m bs. \<Sum>jj\<leftarrow>tile_starts 0 n bs. \<Sum>kk\<leftarrow>tile_starts 0 r bs.
           \<Sum>i = ii..<min (ii + bs) m. \<Sum>k = kk..<min (kk + bs) r. \<Sum>j = jj..<min (jj + bs) n.
             if i = i0 then if j = j0 then g k else 0 else 0) = (\<Sum>k = 0..<r. g k)"
proof -
  let ?G = "\<Sum>k = 0..<r. g k"
  have inner: "(\<Sum>kk\<leftarrow>tile_starts 0 r bs.
           \<Sum>i = ii..<min (ii + bs) m. \<Sum>k = kk..<min (kk + bs) r. \<Sum>j = jj..<min (jj + bs) n.
             if i = i0 then if j = j0 then g k else 0 else 0) =
        (if i0 \<in> {ii..<min (ii + bs) m} then if j0 \<in> {jj..<min (jj + bs) n} then ?G else 0 else 0)"
    for ii jj
    by (simp only: delta_in[OF finite_atLeastLessThan_int finite_atLeastLessThan_int]
        sum_list_if_const tile_sum[OF bs])
  have mid: "(\<Sum>jj\<leftarrow>tile_starts 0 n bs.
       if i0 \<in> {ii..<min (ii + bs) m} then if j0 \<in> {jj..<min (jj + bs) n} then ?G else 0 else 0) =
       (if i0 \<in> {ii..<min (ii + bs) m} then ?G else 0)" for ii
    by (simp only: sum_list_if_const tile_delta[OF bs j0])
  show ?thesis
    by (simp only: inner mid tile_delta[OF bs i0])
qed

lemma adds_into_apply:
  assumes "adds_into h0 c len f \<phi>" "h0 c = Some buf" "length buf = len"
  shows "f h0 = Inr (h0(c \<mapsto> map (\<lambda>p. buf ! p + \<phi> p) [0..<len]))"
proof -
  have "h0(c \<mapsto> buf) = h0" using assms(2) by (rule map_upd_triv)
  with assms(1,3) show ?thesis by (auto simp: adds_into_def)
qed

lemma update_adds:
  assumes "in_range C i j" "0 \<le> rows C" "0 \<le> cols C"
  shows "adds_into h0 (data C) (nat (rows C * cols C))
     (\<lambda>h. ebind (mat_get h C i j) (\<lambda>c. mat_set h C i j (c + v)))
     (\<lambda>p. if p = nat (i * cols C + j) then v else 0)"
  unfolding adds_into_def
proof (intro allI impI)
  fix buf :: "real list"
  let ?len = "nat (rows C * cols C)"
  let ?h = "h0(data C \<mapsto> buf)"
  let ?q = "i * cols C + j"
  assume len: "length buf = ?len"
  have q: "0 \<le> ?q" "?q < rows C * cols C"
    using assms(1) offset_bound[of i "rows C" j "cols C"] by (auto simp: in_range_def)
  then have qn: "nat ?q < length buf" using len by simp
  have c: "mat_get ?h C i j = Inr (buf ! nat ?q)"
    using assms(1) q qn by (simp add: mat_get_def buf_read_def)
  have w: "mat_set ?h C i j x = Inr (h0(data C \<mapsto> buf[nat ?q := x]))" for x
    using assms(1) q qn by (simp add: mat_set_def buf_write_def)
  have "buf[nat ?q := buf ! nat ?q + v] =
        map (\<lambda>p. buf ! p + (if p = nat ?q then v else 0)) [0..<?len]"
    using len by (intro nth_equalityI) (auto simp: nth_list_update)
  then show "ebind (mat_get ?h C i j) (\<lambda>c. mat_set ?h C i j (c + v)) =
      Inr (h0(data C \<mapsto> map (\<lambda>p. buf ! p + (if p = nat ?q then v else 0)) [0..<?len]))"
    by (simp add: c w)
qed

lemma gemm_pre_ranges:
  assumes "gemm_pre h0 A B C" "0 \<le> i" "i < rows A" "0 \<le> j" "j < cols B" "0 \<le> k" "k < cols A"
  shows "in_range A i k" "in_range B k j" "in_range C i j"
  using assms by (auto simp: gemm_pre_def in_range_def)

lemma read_A:
  assumes "gemm_pre h0 A B C" "in_range A i k"
  shows "mat_get (h0(data C \<mapsto> buf)) A i k = Inr (mat_at h0 A i k)"
  using assms mat_get_ok[of h0 A i k] by (simp add: gemm_pre_def mat_get_frame)

lemma read_B:
  assumes "gemm_pre h0 A B C" "in_range B k j"
  shows "mat_get (h0(data C \<mapsto> buf)) B k j = Inr (mat_at h0 B k j)"
  using assms mat_get_ok[of h0 B k j] by (simp add: gemm_pre_def mat_get_frame)

lemma row_step_adds:
  assumes pre: "gemm_pre h0 A B C"
    and i: "0 \<le> i" "i < rows A" and j: "0 \<le> j" "j < cols B" and k: "0 \<le> k" "k < cols A"
  shows "adds_into h0 (data C) (nat (rows C * cols C))
     (\<lambda>h. ebind (mat_get h B k j) (\<lambda>b. ebind (mat_get h C i j)
        (\<lambda>c. mat_set h C i j (c + mat_at h0 A i k * b))))
     (contrib h0 A B C i j k)"
proof -
  note r = gemm_pre_ranges[OF pre i j k]
  have wf: "0 \<le> rows C" "0 \<le> cols C" using pre by (auto simp: gemm_pre_def wf_matrix_def)
  show ?thesis
    unfolding contrib_def
    by (rule adds_into_hoist[where v = "mat_at h0 B k j"])
       (simp_all add: read_B[OF pre r(2)] update_adds[OF r(3) wf])
qed

lemma col_step_adds:
  assumes pre: "gemm_pre h0 A B C"
    and i: "0 \<le> i" "i < rows A" and j: "0 \<le> j" "j < cols B" and k: "0 \<le> k" "k < cols A"
  shows "adds_into h0 (data C) (nat (rows C * cols C))
     (\<lambda>h. ebind (mat_get h A i k) (\<lambda>a. ebind (mat_get h C i j)
        (\<lambda>c. mat_set h C i j (c + a * mat_at h0 B k j))))
     (contrib h0 A B C i j k)"
proof -
  note r = gemm_pre_ranges[OF pre i j k]
  have wf: "0 \<le> rows C" "0 \<le> cols C" using pre by (auto simp: gemm_pre_def wf_matrix_def)
  show ?thesis
    unfolding contrib_def
    by (rule adds_into_hoist[where v = "mat_at h0 A i k"])
       (simp_all add: read_A[OF pre r(1)] update_adds[OF r(3) wf])
qed

lemma inner_saxpy_row_adds:
  assumes pre: "gemm_pre h0 A B C" and i: "0 \<le> i" "i < rows A" and k: "0 \<le> k" "k < cols A"
    and jr: "0 \<le> jj" "j_end \<le> cols B"
  shows "adds_into h0 (data C) (nat (rows C * cols C))
     (\<lambda>h. ebind (mat_get h A i k) (\<lambda>a_ik.
        for_loop jj j_end (\<lambda>j h.
          ebind (mat_get h B k j) (\<lambda>b.
          ebind (mat_get h C i j) (\<lambda>c.
          mat_set h C i j (c + a_ik * b)))) h))
     (\<lambda>p. \<Sum>j = jj..<j_end. contrib h0 A B C i j k p)"
proof (rule adds_into_hoist[where v = "mat_at h0 A i k"])
  have "in_range A i k" using i k by (simp add: in_range_def)
  then show "mat_get (h0(data C \<mapsto> buf)) A i k = Inr (mat_at h0 A i k)" for buf
    by (rule read_A[OF pre])
  show "adds_into h0 (data C) (nat (rows C * cols C))
     (for_loop jj j_end (\<lambda>j h. ebind (mat_get h B k j) (\<lambda>b. ebind (mat_get h C i j)
        (\<lambda>c. mat_set h C i j (c + mat_at h0 A i k * b)))))
     (\<lambda>p. \<Sum>j = jj..<j_end. contrib h0 A B C i j k p)"
    using jr by (intro adds_into_for_loop row_step_adds pre i k) auto
qed

lemma inner_saxpy_column_adds:
  assumes pre: "gemm_pre h0 A B C" and j: "0 \<le> j" "j < cols B" and k: "0 \<le> k" "k < cols A"
  shows "adds_into h0 (data C) (nat (rows C * cols C))
     (inner_saxpy_column C A B j k (rows A))
     (\<lambda>p. \<Sum>i = 0..<rows A. contrib h0 A B C i j k p)"
  unfolding inner_saxpy_column_def[abs_def]
proof (rule adds_into_hoist[where v = "mat_at h0 B k j"])
  have "in_range B k j" using j k pre by (simp add: in_range_def gemm_pre_def)
  then show "mat_get (h0(data C \<mapsto> buf)) B k j = Inr (mat_at h0 B k j)" for buf
    by (rule read_B[OF pre])
  show "adds_into h0 (data C) (nat (rows C * cols C))
     (for_loop 0 (rows A) (\<lambda>i h. ebind (mat_get h A i k) (\<lambda>a. ebind (mat_get h C i j)
        (\<lambda>c. mat_set h C i j (c + a * mat_at h0 B k j)))))
     (\<lambda>p. \<Sum>i = 0..<rows A. contrib h0 A B C i j k p)"
    by (intro adds_into_for_loop col_step_adds pre j k)
qed

lemma madd_adds2:
  assumes pre: "gemm_pre h0 A B C"
    and i: "0 \<le> i" "i < rows A" and j: "0 \<le> j" "j < cols B" and k: "0 \<le> k" "k < cols A"
  shows "adds_into h0 (data C) (nat (rows C * cols C))
     (\<lambda>h. ebind (mat_get h A i k) (\<lambda>a. ebind (mat_get h B k j) (\<lambda>b. ebind (mat_get h C i j)
        (\<lambda>c. mat_set h C i j (c + a * b)))))
     (contrib h0 A B C i j k)"
  using madd_adds[OF assms] by (simp add: madd_def[abs_def])

section \<open>The naive kernels add the product\<close>

lemma contrib_eq_delta:
  assumes "gemm_pre h A B C" "0 \<le> i" "0 \<le> j" "j < cols B"
  shows "contrib h A B C i j k = delta h A B C i j k"
proof -
  have "cols C = cols B" using assms(1) by (simp add: gemm_pre_def)
  then show ?thesis
    using contrib_delta[of i j C h A B k] assms by (auto simp: delta_def fun_eq_iff)
qed

lemma madd_delta:
  assumes pre: "gemm_pre h0 A B C"
    and i: "0 \<le> i" "i < rows A" and j: "0 \<le> j" "j < cols B" and k: "0 \<le> k" "k < cols A"
  shows "adds_into h0 (data C) (nat (rows C * cols C)) (madd A B C i j k) (delta h0 A B C i j k)"
  using madd_adds[OF assms] contrib_eq_delta[OF pre i(1) j] by simp

lemma madd2_delta:
  assumes pre: "gemm_pre h0 A B C"
    and i: "0 \<le> i" "i < rows A" and j: "0 \<le> j" "j < cols B" and k: "0 \<le> k" "k < cols A"
  shows "adds_into h0 (data C) (nat (rows C * cols C))
     (\<lambda>h. ebind (mat_get h A i k) (\<lambda>a. ebind (mat_get h B k j) (\<lambda>b. ebind (mat_get h C i j)
        (\<lambda>c. mat_set h C i j (c + a * b)))))
     (delta h0 A B C i j k)"
  using madd_adds2[OF assms] contrib_eq_delta[OF pre i(1) j] by simp

lemma saxpy_row_delta:
  assumes pre: "gemm_pre h0 A B C" and i: "0 \<le> i" "i < rows A" and k: "0 \<le> k" "k < cols A"
    and jr: "0 \<le> jj" "j_end \<le> cols B"
  shows "adds_into h0 (data C) (nat (rows C * cols C))
     (\<lambda>h. ebind (mat_get h A i k) (\<lambda>a_ik.
        for_loop jj j_end (\<lambda>j h.
          ebind (mat_get h B k j) (\<lambda>b.
          ebind (mat_get h C i j) (\<lambda>c.
          mat_set h C i j (c + a_ik * b)))) h))
     (\<lambda>p. \<Sum>j = jj..<j_end. delta h0 A B C i j k p)"
proof (rule adds_into_cong[OF inner_saxpy_row_adds[OF assms]])
  fix p
  show "(\<Sum>j = jj..<j_end. contrib h0 A B C i j k p) = (\<Sum>j = jj..<j_end. delta h0 A B C i j k p)"
    using jr by (intro sum.cong refl) (simp add: contrib_eq_delta[OF pre i(1)])
qed

lemma saxpy_column_delta:
  assumes pre: "gemm_pre h0 A B C" and j: "0 \<le> j" "j < cols B" and k: "0 \<le> k" "k < cols A"
  shows "adds_into h0 (data C) (nat (rows C * cols C))
     (inner_saxpy_column C A B j k (rows A))
     (\<lambda>p. \<Sum>i = 0..<rows A. delta h0 A B C i j k p)"
proof (rule adds_into_cong[OF inner_saxpy_column_adds[OF assms]])
  fix p
  show "(\<Sum>i = 0..<rows A. contrib h0 A B C i j k p) = (\<Sum>i = 0..<rows A. delta h0 A B C i j k p)"
    by (intro sum.cong refl) (simp add: contrib_eq_delta[OF pre _ j])
qed

lemma delta_jik:
  fixes g :: "int \<Rightarrow> real"
  assumes "finite I" "finite J" "i0 \<in> I" "j0 \<in> J"
  shows "(\<Sum>j\<in>J. \<Sum>i\<in>I. \<Sum>k\<in>K. if i = i0 then if j = j0 then g k else 0 else 0) = (\<Sum>k\<in>K. g k)"
  using assms by (simp add: sum_if_const sum.delta)

lemma delta_jki:
  fixes g :: "int \<Rightarrow> real"
  assumes "finite I" "finite J" "i0 \<in> I" "j0 \<in> J"
  shows "(\<Sum>j\<in>J. \<Sum>k\<in>K. \<Sum>i\<in>I. if i = i0 then if j = j0 then g k else 0 else 0) = (\<Sum>k\<in>K. g k)"
  using assms by (simp add: sum_if_const sum.delta)

lemma delta_kij:
  fixes g :: "int \<Rightarrow> real"
  assumes "finite I" "finite J" "i0 \<in> I" "j0 \<in> J"
  shows "(\<Sum>k\<in>K. \<Sum>i\<in>I. \<Sum>j\<in>J. if i = i0 then if j = j0 then g k else 0 else 0) = (\<Sum>k\<in>K. g k)"
  using assms by (simp add: sum_if_const sum.delta)

lemma delta_nests:
  assumes pre: "gemm_pre h A B C" and p: "p < nat (rows C * cols C)"
  shows "(\<Sum>i = 0..<rows A. \<Sum>j = 0..<cols B. \<Sum>k = 0..<cols A. delta h A B C i j k p) = dotp h A B p"
    and "(\<Sum>j = 0..<cols B. \<Sum>i = 0..<rows A. \<Sum>k = 0..<cols A. delta h A B C i j k p) = dotp h A B p"
    and "(\<Sum>i = 0..<rows A. \<Sum>k = 0..<cols A. \<Sum>j = 0..<cols B. delta h A B C i j k p) = dotp h A B p"
    and "(\<Sum>j = 0..<cols B. \<Sum>k = 0..<cols A. \<Sum>i = 0..<rows A. delta h A B C i j k p) = dotp h A B p"
    and "(\<Sum>k = 0..<cols A. \<Sum>i = 0..<rows A. \<Sum>j = 0..<cols B. delta h A B C i j k p) = dotp h A B p"
    and "(\<Sum>k = 0..<cols A. \<Sum>j = 0..<cols B. \<Sum>i = 0..<rows A. delta h A B C i j k p) = dotp h A B p"
proof -
  have "0 \<le> rows A" "0 \<le> cols B" "p < nat (rows A * cols B)"
    using pre p by (auto simp: gemm_pre_def wf_matrix_def)
  from div_mod_range[OF this]
  have i0: "int p div cols B \<in> {0..<rows A}" and j0: "int p mod cols B \<in> {0..<cols B}"
    by simp_all
  note fin = finite_atLeastLessThan_int[of 0 "rows A"] finite_atLeastLessThan_int[of 0 "cols B"]
  show "(\<Sum>i = 0..<rows A. \<Sum>j = 0..<cols B. \<Sum>k = 0..<cols A. delta h A B C i j k p) = dotp h A B p"
    unfolding delta_def dotp_def by (rule delta_ijk[OF fin i0 j0])
  show "(\<Sum>j = 0..<cols B. \<Sum>i = 0..<rows A. \<Sum>k = 0..<cols A. delta h A B C i j k p) = dotp h A B p"
    unfolding delta_def dotp_def by (rule delta_jik[OF fin i0 j0])
  show "(\<Sum>i = 0..<rows A. \<Sum>k = 0..<cols A. \<Sum>j = 0..<cols B. delta h A B C i j k p) = dotp h A B p"
    unfolding delta_def dotp_def by (rule delta_ikj[OF fin i0 j0])
  show "(\<Sum>j = 0..<cols B. \<Sum>k = 0..<cols A. \<Sum>i = 0..<rows A. delta h A B C i j k p) = dotp h A B p"
    unfolding delta_def dotp_def by (rule delta_jki[OF fin i0 j0])
  show "(\<Sum>k = 0..<cols A. \<Sum>i = 0..<rows A. \<Sum>j = 0..<cols B. delta h A B C i j k p) = dotp h A B p"
    unfolding delta_def dotp_def by (rule delta_kij[OF fin i0 j0])
  show "(\<Sum>k = 0..<cols A. \<Sum>j = 0..<cols B. \<Sum>i = 0..<rows A. delta h A B C i j k p) = dotp h A B p"
    unfolding delta_def dotp_def by (rule delta_kji[OF fin i0 j0])
qed

lemma gemm_ijk_dotp:
  assumes pre: "gemm_pre h0 A B C"
  shows "adds_into h0 (data C) (nat (rows C * cols C)) (gemm_ijk A B C) (dotp h0 A B)"
  unfolding gemm_ijk_def
  by (rule adds_into_cong[OF _ delta_nests(1)[OF pre]])
     (intro adds_into_for_loop madd_delta pre)

lemma gemm_jik_dotp:
  assumes pre: "gemm_pre h0 A B C"
  shows "adds_into h0 (data C) (nat (rows C * cols C)) (gemm_jik A B C) (dotp h0 A B)"
  unfolding gemm_jik_def
  by (rule adds_into_cong[OF _ delta_nests(2)[OF pre]])
     (intro adds_into_for_loop madd_delta pre)

lemma gemm_ikj_dotp:
  assumes pre: "gemm_pre h0 A B C"
  shows "adds_into h0 (data C) (nat (rows C * cols C)) (gemm_ikj A B C) (dotp h0 A B)"
  unfolding gemm_ikj_def
  by (rule adds_into_cong[OF _ delta_nests(3)[OF pre]])
     (intro adds_into_for_loop madd_delta pre)

lemma gemm_jki_dotp:
  assumes pre: "gemm_pre h0 A B C"
  shows "adds_into h0 (data C) (nat (rows C * cols C)) (gemm_jki A B C) (dotp h0 A B)"
  unfolding gemm_jki_def
  by (rule adds_into_cong[OF _ delta_nests(4)[OF pre]])
     (intro adds_into_for_loop madd_delta pre)

lemma gemm_kij_dotp:
  assumes pre: "gemm_pre h0 A B C"
  shows "adds_into h0 (data C) (nat (rows C * cols C)) (gemm_kij A B C) (dotp h0 A B)"
  unfolding gemm_kij_def
  by (rule adds_into_cong[OF _ delta_nests(5)[OF pre]])
     (intro adds_into_for_loop madd_delta pre)

lemma gemm_kji_dotp:
  assumes pre: "gemm_pre h0 A B C"
  shows "adds_into h0 (data C) (nat (rows C * cols C)) (gemm_kji A B C) (dotp h0 A B)"
  unfolding gemm_kji_def
  by (rule adds_into_cong[OF _ delta_nests(6)[OF pre]])
     (intro adds_into_for_loop madd_delta pre)

lemma matmul_ijk_dotp:
  assumes pre: "gemm_pre h0 A B C"
  shows "adds_into h0 (data C) (nat (rows C * cols C)) (matmul_ijk C A B) (dotp h0 A B)"
  unfolding matmul_ijk_def Let_def inner_dot_product_def
  by (rule adds_into_cong[OF _ delta_nests(1)[OF pre]])
     (intro adds_into_for_loop madd2_delta pre)

lemma matmul_jik_dotp:
  assumes pre: "gemm_pre h0 A B C"
  shows "adds_into h0 (data C) (nat (rows C * cols C)) (matmul_jik C A B) (dotp h0 A B)"
  unfolding matmul_jik_def Let_def inner_dot_product_def
  by (rule adds_into_cong[OF _ delta_nests(2)[OF pre]])
     (intro adds_into_for_loop madd2_delta pre)

lemma matmul_saxpy_dotp:
  assumes pre: "gemm_pre h0 A B C"
  shows "adds_into h0 (data C) (nat (rows C * cols C)) (matmul_saxpy C A B) (dotp h0 A B)"
  unfolding matmul_saxpy_def Let_def
  by (rule adds_into_cong[OF _ delta_nests(4)[OF pre]])
     (intro adds_into_for_loop saxpy_column_delta pre)

lemma matmul_ikj_dotp:
  assumes pre: "gemm_pre h0 A B C"
  shows "adds_into h0 (data C) (nat (rows C * cols C)) (matmul_ikj C A B) (dotp h0 A B)"
  unfolding matmul_ikj_def Let_def inner_saxpy_row_def[abs_def]
  by (rule adds_into_cong[OF _ delta_nests(3)[OF pre]])
     (intro adds_into_for_loop saxpy_row_delta pre; simp)

lemma matmul_outer_product_dotp:
  assumes pre: "gemm_pre h0 A B C"
  shows "adds_into h0 (data C) (nat (rows C * cols C)) (matmul_outer_product C A B) (dotp h0 A B)"
  unfolding matmul_outer_product_def Let_def
  by (rule adds_into_cong[OF _ delta_nests(5)[OF pre]])
     (intro adds_into_for_loop madd2_delta pre)

lemma matmul_kij_dotp:
  assumes pre: "gemm_pre h0 A B C"
  shows "adds_into h0 (data C) (nat (rows C * cols C)) (matmul_kij C A B) (dotp h0 A B)"
  unfolding matmul_kij_def Let_def inner_saxpy_row_def[abs_def]
  by (rule adds_into_cong[OF _ delta_nests(5)[OF pre]])
     (intro adds_into_for_loop saxpy_row_delta pre; simp)

lemma matmul_ikj_inlined_dotp:
  assumes pre: "gemm_pre h0 A B C"
  shows "adds_into h0 (data C) (nat (rows C * cols C)) (matmul_ikj_inlined C A B) (dotp h0 A B)"
  unfolding matmul_ikj_inlined_def Let_def
  by (rule adds_into_cong[OF _ delta_nests(3)[OF pre]])
     (intro adds_into_for_loop saxpy_row_delta pre; simp)

section \<open>The blocked kernels add the product\<close>

lemma gemm_blocked_run:
  assumes bs: "0 < bs"
    and fit: "tiles_fit (rows A) bs" "tiles_fit (cols B) bs" "tiles_fit (cols A) bs"
  shows "gemm_blocked A B C bs h =
    Some (run (\<lambda>ii. run (\<lambda>jj. run (\<lambda>kk.
        inner_block_outer_loop A B C ii kk jj
          (min (ii + bs) (rows A)) (min (jj + bs) (cols B)) (min (kk + bs) (cols A)))
      (tile_starts 0 (cols A) bs)) (tile_starts 0 (cols B) bs)) (tile_starts 0 (rows A) bs) h)"
proof -
  have "gemm_blocked A B C bs h =
    Some (run (\<lambda>ii. run (\<lambda>jj. run (\<lambda>kk.
        inner_block_outer_loop A B C ii kk jj
          (min (add32 ii bs) (rows A)) (min (add32 jj bs) (cols B)) (min (add32 kk bs) (cols A)))
      (tile_starts 0 (cols A) bs)) (tile_starts 0 (cols B) bs)) (tile_starts 0 (rows A) bs) h)"
    unfolding gemm_blocked_def outer_block_outer_loop_def outer_block_middle_loop_def
      outer_block_inner_loop_def Let_def
    by (simp only: for_step_tiles[OF bs fit(1)] for_step_tiles[OF bs fit(2)]
        for_step_tiles[OF bs fit(3)])
  moreover have "run (\<lambda>ii. run (\<lambda>jj. run (\<lambda>kk.
        inner_block_outer_loop A B C ii kk jj
          (min (add32 ii bs) (rows A)) (min (add32 jj bs) (cols B)) (min (add32 kk bs) (cols A)))
      (tile_starts 0 (cols A) bs)) (tile_starts 0 (cols B) bs)) (tile_starts 0 (rows A) bs) =
    run (\<lambda>ii. run (\<lambda>jj. run (\<lambda>kk.
        inner_block_outer_loop A B C ii kk jj
          (min (ii + bs) (rows A)) (min (jj + bs) (cols B)) (min (kk + bs) (cols A)))
      (tile_starts 0 (cols A) bs)) (tile_starts 0 (cols B) bs)) (tile_starts 0 (rows A) bs)"
    by (intro run_cong) (simp add: tile_add32[OF bs fit(1)] tile_add32[OF bs fit(2)]
        tile_add32[OF bs fit(3)])
  ultimately show ?thesis by simp
qed

lemma if_less_min: "(if a < b then a else b) = min a (b::int)"
  by (simp add: min_def)

lemma matmul_blocked_run:
  assumes bs: "0 < bs"
    and fit: "tiles_fit (rows A) bs" "tiles_fit (cols B) bs" "tiles_fit (cols A) bs"
  shows "matmul_blocked C A B bs h =
    Some (run (\<lambda>ii. run (\<lambda>jj. run (\<lambda>kk.
        for_loop ii (min (ii + bs) (rows A)) (\<lambda>i.
          for_loop kk (min (kk + bs) (cols A)) (\<lambda>k h.
            ebind (mat_get h A i k) (\<lambda>a_ik.
              for_loop jj (min (jj + bs) (cols B)) (\<lambda>j h.
                ebind (mat_get h B k j) (\<lambda>b.
                ebind (mat_get h C i j) (\<lambda>c.
                mat_set h C i j (c + a_ik * b)))) h))))
      (tile_starts 0 (cols A) bs)) (tile_starts 0 (cols B) bs)) (tile_starts 0 (rows A) bs) h)"
proof -
  have "matmul_blocked C A B bs h =
    Some (run (\<lambda>ii. run (\<lambda>jj. run (\<lambda>kk.
        for_loop ii (min (add32 ii bs) (rows A)) (\<lambda>i.
          for_loop kk (min (add32 kk bs) (cols A)) (\<lambda>k h.
            ebind (mat_get h A i k) (\<lambda>a_ik.
              for_loop jj (min (add32 jj bs) (cols B)) (\<lambda>j h.
                ebind (mat_get h B k j) (\<lambda>b.
                ebind (mat_get h C i j) (\<lambda>c.
                mat_set h C i j (c + a_ik * b)))) h))))
      (tile_starts 0 (cols A) bs)) (tile_starts 0 (cols B) bs)) (tile_starts 0 (rows A) bs) h)"
    unfolding matmul_blocked_def Let_def if_less_min
    by (simp only: for_step_tiles[OF bs fit(1)] for_step_tiles[OF bs fit(2)]
        for_step_tiles[OF bs fit(3)])
  moreover have "run (\<lambda>ii. run (\<lambda>jj. run (\<lambda>kk.
        for_loop ii (min (add32 ii bs) (rows A)) (\<lambda>i.
          for_loop kk (min (add32 kk bs) (cols A)) (\<lambda>k h.
            ebind (mat_get h A i k) (\<lambda>a_ik.
              for_loop jj (min (add32 jj bs) (cols B)) (\<lambda>j h.
                ebind (mat_get h B k j) (\<lambda>b.
                ebind (mat_get h C i j) (\<lambda>c.
                mat_set h C i j (c + a_ik * b)))) h))))
      (tile_starts 0 (cols A) bs)) (tile_starts 0 (cols B) bs)) (tile_starts 0 (rows A) bs) =
    run (\<lambda>ii. run (\<lambda>jj. run (\<lambda>kk.
        for_loop ii (min (ii + bs) (rows A)) (\<lambda>i.
          for_loop kk (min (kk + bs) (cols A)) (\<lambda>k h.
            ebind (mat_get h A i k) (\<lambda>a_ik.
              for_loop jj (min (jj + bs) (cols B)) (\<lambda>j h.
                ebind (mat_get h B k j) (\<lambda>b.
                ebind (mat_get h C i j) (\<lambda>c.
                mat_set h C i j (c + a_ik * b)))) h))))
      (tile_starts 0 (cols A) bs)) (tile_starts 0 (cols B) bs)) (tile_starts 0 (rows A) bs)"
    by (intro run_cong) (simp add: tile_add32[OF bs fit(1)] tile_add32[OF bs fit(2)]
        tile_add32[OF bs fit(3)])
  ultimately show ?thesis by simp
qed

lemma adds_into_run_list:
  assumes "\<And>x. x \<in> set (tile_starts lo hi bs) \<Longrightarrow> adds_into h0 c len (body x) (\<phi> x)"
  shows "adds_into h0 c len (run body (tile_starts lo hi bs)) (\<lambda>p. \<Sum>x\<leftarrow>tile_starts lo hi bs. \<phi> x p)"
  using assms by (rule adds_into_run)

lemma delta_blocked_nest:
  assumes pre: "gemm_pre h A B C" and p: "p < nat (rows C * cols C)" and bs: "0 < bs"
  shows "(\<Sum>ii\<leftarrow>tile_starts 0 (rows A) bs. \<Sum>jj\<leftarrow>tile_starts 0 (cols B) bs.
          \<Sum>kk\<leftarrow>tile_starts 0 (cols A) bs.
           \<Sum>i = ii..<min (ii + bs) (rows A). \<Sum>k = kk..<min (kk + bs) (cols A).
           \<Sum>j = jj..<min (jj + bs) (cols B). delta h A B C i j k p) = dotp h A B p"
proof -
  have "0 \<le> rows A" "0 \<le> cols B" "p < nat (rows A * cols B)"
    using pre p by (auto simp: gemm_pre_def wf_matrix_def)
  from div_mod_range[OF this]
  show ?thesis
    unfolding delta_def dotp_def by (intro delta_blocked bs)
qed

lemma gemm_blocked_dotp:
  assumes pre: "gemm_pre h0 A B C" and bs: "0 < bs"
    and fit: "tiles_fit (rows A) bs" "tiles_fit (cols B) bs" "tiles_fit (cols A) bs"
  shows "\<exists>f. gemm_blocked A B C bs = (\<lambda>h. Some (f h)) \<and>
     adds_into h0 (data C) (nat (rows C * cols C)) f (dotp h0 A B)"
proof (intro exI conjI)
  show "gemm_blocked A B C bs = (\<lambda>h. Some (run (\<lambda>ii. run (\<lambda>jj. run (\<lambda>kk.
        inner_block_outer_loop A B C ii kk jj
          (min (ii + bs) (rows A)) (min (jj + bs) (cols B)) (min (kk + bs) (cols A)))
      (tile_starts 0 (cols A) bs)) (tile_starts 0 (cols B) bs)) (tile_starts 0 (rows A) bs) h))"
    by (rule ext) (rule gemm_blocked_run[OF bs fit])
  show "adds_into h0 (data C) (nat (rows C * cols C)) (run (\<lambda>ii. run (\<lambda>jj. run (\<lambda>kk.
        inner_block_outer_loop A B C ii kk jj
          (min (ii + bs) (rows A)) (min (jj + bs) (cols B)) (min (kk + bs) (cols A)))
      (tile_starts 0 (cols A) bs)) (tile_starts 0 (cols B) bs)) (tile_starts 0 (rows A) bs))
      (dotp h0 A B)"
    unfolding inner_block_outer_loop_def inner_block_middle_loop_def inner_block_inner_loop_def
    by (rule adds_into_cong[OF _ delta_blocked_nest[OF pre _ bs]])
       (intro adds_into_run_list adds_into_for_loop madd_delta pre;
        (drule tile_starts_range)?; simp)+
qed

lemma matmul_blocked_dotp:
  assumes pre: "gemm_pre h0 A B C" and bs: "0 < bs"
    and fit: "tiles_fit (rows A) bs" "tiles_fit (cols B) bs" "tiles_fit (cols A) bs"
  shows "\<exists>f. matmul_blocked C A B bs = (\<lambda>h. Some (f h)) \<and>
     adds_into h0 (data C) (nat (rows C * cols C)) f (dotp h0 A B)"
proof (intro exI conjI)
  show "matmul_blocked C A B bs = (\<lambda>h. Some (run (\<lambda>ii. run (\<lambda>jj. run (\<lambda>kk.
        for_loop ii (min (ii + bs) (rows A)) (\<lambda>i.
          for_loop kk (min (kk + bs) (cols A)) (\<lambda>k h.
            ebind (mat_get h A i k) (\<lambda>a_ik.
              for_loop jj (min (jj + bs) (cols B)) (\<lambda>j h.
                ebind (mat_get h B k j) (\<lambda>b.
                ebind (mat_get h C i j) (\<lambda>c.
                mat_set h C i j (c + a_ik * b)))) h))))
      (tile_starts 0 (cols A) bs)) (tile_starts 0 (cols B) bs)) (tile_starts 0 (rows A) bs) h))"
    by (rule ext) (rule matmul_blocked_run[OF bs fit])
  show "adds_into h0 (data C) (nat (rows C * cols C)) (run (\<lambda>ii. run (\<lambda>jj. run (\<lambda>kk.
        for_loop ii (min (ii + bs) (rows A)) (\<lambda>i.
          for_loop kk (min (kk + bs) (cols A)) (\<lambda>k h.
            ebind (mat_get h A i k) (\<lambda>a_ik.
              for_loop jj (min (jj + bs) (cols B)) (\<lambda>j h.
                ebind (mat_get h B k j) (\<lambda>b.
                ebind (mat_get h C i j) (\<lambda>c.
                mat_set h C i j (c + a_ik * b)))) h))))
      (tile_starts 0 (cols A) bs)) (tile_starts 0 (cols B) bs)) (tile_starts 0 (rows A) bs))
      (dotp h0 A B)"
    by (rule adds_into_cong[OF _ delta_blocked_nest[OF pre _ bs]])
       (intro adds_into_run_list adds_into_for_loop saxpy_row_delta pre;
        (drule tile_starts_range)?; simp)+
qed

section \<open>Functional correctness and equivalence of the GEMM kernels\<close>

lemma adds_dotp_result:
  assumes pre: "gemm_pre h A B C"
    and f: "adds_into h (data C) (nat (rows C * cols C)) f (dotp h A B)"
  shows "\<exists>buf. h (data C) = Some buf \<and> length buf = nat (rows C * cols C) \<and>
     f h = Inr (h(data C \<mapsto> map (\<lambda>p. buf ! p + dotp h A B p) [0..<length buf]))"
proof -
  obtain buf where buf: "h (data C) = Some buf" "int (length buf) = rows C * cols C"
    using pre by (auto simp: gemm_pre_def wf_matrix_def split: option.splits)
  then have len: "length buf = nat (rows C * cols C)" by linarith
  from adds_into_apply[OF f buf(1) len] buf(1) len show ?thesis by simp
qed

lemma result_elem:
  assumes pre: "gemm_pre h A B C" and buf: "h (data C) = Some buf"
    and i: "0 \<le> i" "i < rows A" and j: "0 \<le> j" "j < cols B"
  shows "mat_get (h(data C \<mapsto> map (\<lambda>p. buf ! p + dotp h A B p) [0..<length buf])) C i j =
     Inr (mat_at h C i j + (\<Sum>k\<leftarrow>[0..cols A - 1]. mat_at h A i k * mat_at h B k j))"
proof -
  let ?q = "i * cols B + j"
  have dims: "rows C = rows A" "cols C = cols B" and wfC: "wf_matrix h C"
    using pre by (auto simp: gemm_pre_def)
  have len: "int (length buf) = rows A * cols B"
    using wfC buf dims by (simp add: wf_matrix_def)
  have rC: "in_range C i j" using i j dims by (simp add: in_range_def)
  have q: "0 \<le> ?q" "?q < rows A * cols B"
    using offset_bound[OF i j] by auto
  then have qn: "nat ?q < length buf" using len by linarith
  have old: "mat_at h C i j = buf ! nat ?q"
    using rC buf q len dims by (simp add: mat_at_def mat_get_def buf_read_def)
  have dm: "int (nat ?q) div cols B = i" "int (nat ?q) mod cols B = j"
    using q(1) i j by simp_all
  have "{0..cols A - 1} = {0..<cols A}" by auto
  then have "(\<Sum>k\<leftarrow>[0..cols A - 1]. mat_at h A i k * mat_at h B k j) =
        (\<Sum>k = 0..<cols A. mat_at h A i k * mat_at h B k j)"
    using sum_set_upto_conv_sum_list_int[of "\<lambda>k. mat_at h A i k * mat_at h B k j" 0 "cols A - 1"]
    by simp
  then have dp: "dotp h A B (nat ?q) = (\<Sum>k\<leftarrow>[0..cols A - 1]. mat_at h A i k * mat_at h B k j)"
    by (simp only: dotp_def dm)
  show ?thesis
    using rC q qn len dims old dp by (simp add: mat_get_def buf_read_def)
qed

text \<open>
  The ownership rule of the data model is needed: when the accumulator is the matrix
  \<open>A\<close> itself, the orderings read elements that earlier iterations have overwritten,
  and ijk and kji disagree.
\<close>

lemma aliased_accumulator_breaks_equivalence:
  "gemm_ijk exA exB exA exh = Inr (exh(0 \<mapsto> [20, 1098, 46, 2520])) \<and>
   gemm_kji exA exB exA exh = Inr (exh(0 \<mapsto> [272, 342, 802, 1008]))"
  by (simp add: gemm_ijk_def gemm_kji_def for_loop.simps madd_def mat_get_def mat_set_def
      buf_read_def buf_write_def in_range_def exA_def exB_def exh_def)

text \<open>
  C2. With \<open>A\<close> of size \<open>m \<times> r\<close>, \<open>B\<close> of size \<open>r \<times> n\<close> and an accumulator \<open>C\<close> of size
  \<open>m \<times> n\<close> that owns its buffer, every naive ordering (ijk, jik, ikj, jki, kij, kji, in
  the C++ and in the C variant) ends in one and the same store \<open>h'\<close>, in which
  \<open>C[i][j]\<close> is its old value plus the sum of \<open>A[i][k] * B[k][j]\<close> over \<open>0 \<le> k < r\<close>, for all
  \<open>0 \<le> i < m\<close> and \<open>0 \<le> j < n\<close>.
\<close>

theorem naive_orderings_accumulate_product:
  assumes "wf_matrix h A" and "wf_matrix h B" and "wf_matrix h C"
    and "cols A = rows B" and "rows C = rows A" and "cols C = cols B"
    and "data C \<noteq> data A" and "data C \<noteq> data B"
  shows "\<exists>h'. gemm_ijk A B C h = Inr h' \<and>
     (\<forall>i j. 0 \<le> i \<and> i < rows A \<and> 0 \<le> j \<and> j < cols B \<longrightarrow>
        mat_get h' C i j =
          Inr (mat_at h C i j + (\<Sum>k\<leftarrow>[0..cols A - 1]. mat_at h A i k * mat_at h B k j))) \<and>
     gemm_jik A B C h = Inr h' \<and> gemm_ikj A B C h = Inr h' \<and> gemm_jki A B C h = Inr h' \<and>
     gemm_kij A B C h = Inr h' \<and> gemm_kji A B C h = Inr h' \<and>
     matmul_ijk C A B h = Inr h' \<and> matmul_jik C A B h = Inr h' \<and>
     matmul_saxpy C A B h = Inr h' \<and> matmul_ikj C A B h = Inr h' \<and>
     matmul_outer_product C A B h = Inr h' \<and> matmul_kij C A B h = Inr h'"
proof -
  have pre: "gemm_pre h A B C" using assms by (simp add: gemm_pre_def)
  obtain buf where buf: "h (data C) = Some buf"
    using assms(3) by (auto simp: wf_matrix_def split: option.splits)
  let ?h' = "h(data C \<mapsto> map (\<lambda>p. buf ! p + dotp h A B p) [0..<length buf])"
  have res: "f h = Inr ?h'"
    if "adds_into h (data C) (nat (rows C * cols C)) f (dotp h A B)" for f
    using adds_dotp_result[OF pre that] buf by auto
  have elems: "\<forall>i j. 0 \<le> i \<and> i < rows A \<and> 0 \<le> j \<and> j < cols B \<longrightarrow>
        mat_get ?h' C i j =
          Inr (mat_at h C i j + (\<Sum>k\<leftarrow>[0..cols A - 1]. mat_at h A i k * mat_at h B k j))"
    using result_elem[OF pre buf] by blast
  show ?thesis
    using elems res[OF gemm_ijk_dotp[OF pre]] res[OF gemm_jik_dotp[OF pre]]
      res[OF gemm_ikj_dotp[OF pre]] res[OF gemm_jki_dotp[OF pre]]
      res[OF gemm_kij_dotp[OF pre]] res[OF gemm_kji_dotp[OF pre]]
      res[OF matmul_ijk_dotp[OF pre]] res[OF matmul_jik_dotp[OF pre]]
      res[OF matmul_saxpy_dotp[OF pre]] res[OF matmul_ikj_dotp[OF pre]]
      res[OF matmul_outer_product_dotp[OF pre]] res[OF matmul_kij_dotp[OF pre]]
    by (intro exI[of _ ?h'] conjI)
qed

lemma ex_wf: "wf_matrix exh exA" "wf_matrix exh exB" "wf_matrix exh exC"
  by (simp_all add: wf_matrix_def exA_def exB_def exC_def exh_def)

theorem naive_orderings_accumulate_product_witness:
  "wf_matrix exh exA \<and> wf_matrix exh exB \<and> wf_matrix exh exC \<and>
   cols exA = rows exB \<and> rows exC = rows exA \<and> cols exC = cols exB \<and>
   data exC \<noteq> data exA \<and> data exC \<noteq> data exB \<and>
   (\<exists>h'. gemm_ijk exA exB exC exh = Inr h' \<and>
      mat_get h' exC 0 0 = Inr 20 \<and> mat_get h' exC 0 1 = Inr 23 \<and>
      mat_get h' exC 1 0 = Inr 44 \<and> mat_get h' exC 1 1 = Inr 51 \<and>
      gemm_kji exA exB exC exh = Inr h' \<and> matmul_saxpy exC exA exB exh = Inr h')"
proof -
  have d: "cols exA = rows exB" "rows exC = rows exA" "cols exC = cols exB"
    "data exC \<noteq> data exA" "data exC \<noteq> data exB"
    by (simp_all add: exA_def exB_def exC_def)
  from naive_orderings_accumulate_product[OF ex_wf d]
  obtain h' where h': "gemm_ijk exA exB exC exh = Inr h'"
    and el: "\<And>i j. 0 \<le> i \<and> i < rows exA \<and> 0 \<le> j \<and> j < cols exB \<Longrightarrow>
        mat_get h' exC i j =
          Inr (mat_at exh exC i j + (\<Sum>k\<leftarrow>[0..cols exA - 1]. mat_at exh exA i k * mat_at exh exB k j))"
    and others: "gemm_kji exA exB exC exh = Inr h'" "matmul_saxpy exC exA exB exh = Inr h'"
    by blast
  have v: "mat_at exh exC 0 0 + (\<Sum>k\<leftarrow>[0..cols exA - 1]. mat_at exh exA 0 k * mat_at exh exB k 0) = 20"
    "mat_at exh exC 0 1 + (\<Sum>k\<leftarrow>[0..cols exA - 1]. mat_at exh exA 0 k * mat_at exh exB k 1) = 23"
    "mat_at exh exC 1 0 + (\<Sum>k\<leftarrow>[0..cols exA - 1]. mat_at exh exA 1 k * mat_at exh exB k 0) = 44"
    "mat_at exh exC 1 1 + (\<Sum>k\<leftarrow>[0..cols exA - 1]. mat_at exh exA 1 k * mat_at exh exB k 1) = 51"
    by (simp_all add: upto.simps mat_at_def mat_get_def buf_read_def in_range_def
        exA_def exB_def exC_def exh_def)
  have r: "0 \<le> (0::int) \<and> 0 < rows exA \<and> 0 \<le> (0::int) \<and> 0 < cols exB"
    "0 \<le> (0::int) \<and> 0 < rows exA \<and> 0 \<le> (1::int) \<and> 1 < cols exB"
    "0 \<le> (1::int) \<and> 1 < rows exA \<and> 0 \<le> (0::int) \<and> 0 < cols exB"
    "0 \<le> (1::int) \<and> 1 < rows exA \<and> 0 \<le> (1::int) \<and> 1 < cols exB"
    by (simp_all add: exA_def exB_def)
  show ?thesis
    using ex_wf d h' others el[OF r(1)] el[OF r(2)] el[OF r(3)] el[OF r(4)] v
    by (intro conjI exI[of _ h']) simp_all
qed

text \<open>
  C1, within the range of an \<open>int\<close>. For \<open>A\<close> of size \<open>m \<times> r\<close>, \<open>B\<close> of size \<open>r \<times> n\<close>, an
  accumulator \<open>C\<close> of size \<open>m \<times> n\<close> and every block size \<open>bs \<ge> 1\<close> for which the tile
  origins of all three dimensions stay representable (\<open>tiles_fit\<close>), whether or not it
  divides or exceeds \<open>m\<close>, \<open>n\<close>, \<open>r\<close>, the blocked kernel returns, and returns exactly what
  the naive ikj kernel returns (in both variants); hence any two such block sizes give
  the same result.
\<close>

theorem blocked_equals_naive_ikj:
  assumes "wf_matrix h A" and "wf_matrix h B" and "wf_matrix h C"
    and "cols A = rows B" and "rows C = rows A" and "cols C = cols B"
    and "data C \<noteq> data A" and "data C \<noteq> data B"
    and "1 \<le> bs" and "1 \<le> bs'"
    and "tiles_fit (rows A) bs" and "tiles_fit (cols B) bs" and "tiles_fit (cols A) bs"
    and "tiles_fit (rows A) bs'" and "tiles_fit (cols B) bs'" and "tiles_fit (cols A) bs'"
  shows "gemm_blocked A B C bs h = Some (gemm_ikj A B C h) \<and>
     matmul_blocked C A B bs h = Some (matmul_ikj C A B h) \<and>
     matmul_blocked C A B bs h = Some (matmul_ikj_inlined C A B h) \<and>
     gemm_blocked A B C bs' h = gemm_blocked A B C bs h \<and>
     matmul_blocked C A B bs' h = matmul_blocked C A B bs h"
proof -
  have pre: "gemm_pre h A B C" using assms by (simp add: gemm_pre_def)
  have bs: "0 < bs" "0 < bs'" using assms by simp_all
  note fit = assms(11-13) and fit' = assms(14-16)
  obtain buf where buf: "h (data C) = Some buf"
    using assms(3) by (auto simp: wf_matrix_def split: option.splits)
  let ?h' = "h(data C \<mapsto> map (\<lambda>p. buf ! p + dotp h A B p) [0..<length buf])"
  have res: "f h = Inr ?h'"
    if "adds_into h (data C) (nat (rows C * cols C)) f (dotp h A B)" for f
    using adds_dotp_result[OF pre that] buf by auto
  have cpp: "gemm_blocked A B C b h = Some (Inr ?h')"
    if "0 < b" "tiles_fit (rows A) b" "tiles_fit (cols B) b" "tiles_fit (cols A) b" for b
    using gemm_blocked_dotp[OF pre that] res by auto
  have c: "matmul_blocked C A B b h = Some (Inr ?h')"
    if "0 < b" "tiles_fit (rows A) b" "tiles_fit (cols B) b" "tiles_fit (cols A) b" for b
    using matmul_blocked_dotp[OF pre that] res by auto
  show ?thesis
    using cpp[OF bs(1) fit] cpp[OF bs(2) fit'] c[OF bs(1) fit] c[OF bs(2) fit']
      res[OF gemm_ikj_dotp[OF pre]] res[OF matmul_ikj_dotp[OF pre]]
      res[OF matmul_ikj_inlined_dotp[OF pre]]
    by simp
qed

lemma ex_fit: "tiles_fit (rows exA) 3" "tiles_fit (cols exB) 3" "tiles_fit (cols exA) 3"
  "tiles_fit (rows exA) 1" "tiles_fit (cols exB) 1" "tiles_fit (cols exA) 1"
  by (simp_all add: tiles_fit_def INT_MAX_def exA_def exB_def)

theorem blocked_equals_naive_ikj_witness:
  "wf_matrix exh exA \<and> wf_matrix exh exB \<and> wf_matrix exh exC \<and>
   cols exA = rows exB \<and> rows exC = rows exA \<and> cols exC = cols exB \<and>
   data exC \<noteq> data exA \<and> data exC \<noteq> data exB \<and> (1::int) \<le> 3 \<and> (1::int) \<le> 1 \<and>
   tiles_fit (rows exA) 3 \<and> tiles_fit (cols exB) 3 \<and> tiles_fit (cols exA) 3 \<and>
   tiles_fit (rows exA) 1 \<and> tiles_fit (cols exB) 1 \<and> tiles_fit (cols exA) 1 \<and>
   gemm_blocked exA exB exC 3 exh = Some (Inr (exh(2 \<mapsto> [20, 23, 44, 51]))) \<and>
   matmul_blocked exC exA exB 3 exh = Some (Inr (exh(2 \<mapsto> [20, 23, 44, 51]))) \<and>
   gemm_blocked exA exB exC 1 exh = Some (Inr (exh(2 \<mapsto> [20, 23, 44, 51])))"
proof -
  have d: "cols exA = rows exB" "rows exC = rows exA" "cols exC = cols exB"
    "data exC \<noteq> data exA" "data exC \<noteq> data exB"
    by (simp_all add: exA_def exB_def exC_def)
  have b: "(1::int) \<le> 3" "(1::int) \<le> 1" by simp_all
  have ikj: "gemm_ikj exA exB exC exh = Inr (exh(2 \<mapsto> [20, 23, 44, 51]))"
    by (simp add: gemm_ikj_def for_loop.simps madd_def mat_get_def mat_set_def buf_read_def
        buf_write_def in_range_def exA_def exB_def exC_def exh_def)
  have ikj': "matmul_ikj exC exA exB exh = Inr (exh(2 \<mapsto> [20, 23, 44, 51]))"
    by (simp add: matmul_ikj_def inner_saxpy_row_def for_loop.simps mat_get_def mat_set_def
        buf_read_def buf_write_def in_range_def exA_def exB_def exC_def exh_def)
  show ?thesis
    using blocked_equals_naive_ikj[OF ex_wf d b ex_fit] ex_wf d ex_fit ikj ikj' by simp
qed

section \<open>Gaxpy: functional correctness and equivalence\<close>

lemma vadd_adds:
  assumes pre: "gaxpy_pre h0 A x y" and i: "0 \<le> i" "i < rows A" and j: "0 \<le> j" "j < cols A"
  shows "adds_into h0 y (nat (rows A)) (vadd A x y i j)
     (\<lambda>p. if i = int p then mat_at h0 A (int p) j * vec_at h0 x j else 0)"
  unfolding adds_into_def
proof (intro allI impI)
  fix buf :: "real list"
  let ?len = "nat (rows A)"
  let ?h = "h0(y \<mapsto> buf)"
  assume len: "length buf = ?len"
  have wfA: "wf_matrix h0 A" and wfx: "wf_vector h0 x (cols A)"
    and na: "data A \<noteq> y" "x \<noteq> y"
    using pre by (auto simp: gaxpy_pre_def)
  have rA: "in_range A i j" using i j by (simp add: in_range_def)
  have a: "mat_get ?h A i j = Inr (mat_at h0 A i j)"
    using mat_get_ok[OF wfA rA] na(1) by (simp add: mat_get_frame)
  obtain xb where xb: "h0 x = Some xb" "int (length xb) = cols A"
    using wfx by (auto simp: wf_vector_def split: option.splits)
  have b: "buf_read ?h x j = Inr (vec_at h0 x j)"
    using xb j na(2) by (simp add: buf_read_def vec_at_def)
  have c: "buf_read ?h y i = Inr (buf ! nat i)"
    using i len by (simp add: buf_read_def)
  have w: "buf_write ?h y i v = Inr (h0(y \<mapsto> buf[nat i := v]))" for v
    using i len by (simp add: buf_write_def)
  have "buf[nat i := buf ! nat i + mat_at h0 A i j * vec_at h0 x j] =
        map (\<lambda>p. buf ! p + (if i = int p then mat_at h0 A (int p) j * vec_at h0 x j else 0)) [0..<?len]"
    using len i by (intro nth_equalityI) (auto simp: nth_list_update)
  then show "vadd A x y i j ?h =
      Inr (h0(y \<mapsto> map (\<lambda>p. buf ! p +
        (if i = int p then mat_at h0 A (int p) j * vec_at h0 x j else 0)) [0..<?len]))"
    by (simp add: vadd_def a b c w)
qed

lemma gaxpy_nests:
  assumes "p < nat (rows A)"
  shows "(\<Sum>i = 0..<rows A. \<Sum>j = 0..<cols A.
            if i = int p then mat_at h A (int p) j * vec_at h x j else 0) = gaxpy_row h A x p"
    and "(\<Sum>j = 0..<cols A. \<Sum>i = 0..<rows A.
            if i = int p then mat_at h A (int p) j * vec_at h x j else 0) = gaxpy_row h A x p"
  using assms by (simp_all add: gaxpy_row_def sum_if_const sum.delta)

lemma gaxpy_row_oriented_adds:
  assumes pre: "gaxpy_pre h0 A x y"
  shows "adds_into h0 y (nat (rows A)) (gaxpy_row_oriented A x y) (gaxpy_row h0 A x)"
  unfolding gaxpy_row_oriented_def
  by (rule adds_into_cong[OF _ gaxpy_nests(1)[of _ A h0 x]])
     (intro adds_into_for_loop vadd_adds pre)

lemma gaxpy_column_oriented_adds:
  assumes pre: "gaxpy_pre h0 A x y"
  shows "adds_into h0 y (nat (rows A)) (gaxpy_column_oriented A x y) (gaxpy_row h0 A x)"
  unfolding gaxpy_column_oriented_def
  by (rule adds_into_cong[OF _ gaxpy_nests(2)[of _ A h0 x]])
     (intro adds_into_for_loop vadd_adds pre)

lemma matrix_vector_mult_adds:
  assumes pre: "gaxpy_pre h0 A x y"
  shows "adds_into h0 y (nat (rows A)) (matrix_vector_mult A x y) (gaxpy_row h0 A x)"
  unfolding matrix_vector_mult_def
  by (rule adds_into_cong[OF _ gaxpy_nests(1)[of _ A h0 x]])
     (intro adds_into_for_loop vadd_adds pre)

lemma gaxpy_result:
  assumes pre: "gaxpy_pre h A x y"
    and f: "adds_into h y (nat (rows A)) f (gaxpy_row h A x)"
  shows "\<exists>buf. h y = Some buf \<and> length buf = nat (rows A) \<and>
     f h = Inr (h(y \<mapsto> map (\<lambda>p. buf ! p + gaxpy_row h A x p) [0..<length buf]))"
proof -
  obtain buf where buf: "h y = Some buf" "int (length buf) = rows A"
    using pre by (auto simp: gaxpy_pre_def wf_vector_def split: option.splits)
  then have len: "length buf = nat (rows A)" by linarith
  from adds_into_apply[OF f buf(1) len] buf(1) len show ?thesis by simp
qed

lemma gaxpy_elem:
  assumes pre: "gaxpy_pre h A x y" and buf: "h y = Some buf"
    and i: "0 \<le> i" "i < rows A"
  shows "buf_read (h(y \<mapsto> map (\<lambda>p. buf ! p + gaxpy_row h A x p) [0..<length buf])) y i =
     Inr (vec_at h y i + (\<Sum>j\<leftarrow>[0..cols A - 1]. mat_at h A i j * vec_at h x j))"
proof -
  have len: "int (length buf) = rows A"
    using pre buf by (simp add: gaxpy_pre_def wf_vector_def)
  have old: "vec_at h y i = buf ! nat i"
    using buf i len by (simp add: vec_at_def buf_read_def)
  have "{0..cols A - 1} = {0..<cols A}" by auto
  then have "(\<Sum>j\<leftarrow>[0..cols A - 1]. mat_at h A i j * vec_at h x j) =
        (\<Sum>j = 0..<cols A. mat_at h A i j * vec_at h x j)"
    using sum_set_upto_conv_sum_list_int[of "\<lambda>j. mat_at h A i j * vec_at h x j" 0 "cols A - 1"]
    by simp
  then have dp: "gaxpy_row h A x (nat i) = (\<Sum>j\<leftarrow>[0..cols A - 1]. mat_at h A i j * vec_at h x j)"
    using i by (simp add: gaxpy_row_def)
  have "nat i < length buf" using i len by linarith
  then show ?thesis
    using i len old dp by (simp add: buf_read_def)
qed

text \<open>
  C3. For a matrix \<open>A\<close> of size \<open>m \<times> n\<close>, a vector \<open>x\<close> of length \<open>n\<close> and a vector \<open>y\<close> of
  length \<open>m\<close> with any initial contents (\<open>y\<close> sharing its buffer with neither \<open>A\<close> nor \<open>x\<close>),
  the row-oriented and the column-oriented gaxpy both succeed and leave the same store,
  hence the same final \<open>y\<close>.
\<close>

theorem gaxpy_row_column_agree:
  assumes "wf_matrix h A" and "wf_vector h x (cols A)" and "wf_vector h y (rows A)"
    and "y \<noteq> data A" and "y \<noteq> x"
  shows "\<exists>h'. gaxpy_row_oriented A x y h = Inr h' \<and> gaxpy_column_oriented A x y h = Inr h'"
proof -
  have pre: "gaxpy_pre h A x y" using assms by (simp add: gaxpy_pre_def)
  from gaxpy_result[OF pre gaxpy_row_oriented_adds[OF pre]]
    gaxpy_result[OF pre gaxpy_column_oriented_adds[OF pre]]
  show ?thesis by auto
qed

lemma gx_wf: "wf_matrix gxh gxA" "wf_vector gxh 1 (cols gxA)" "wf_vector gxh 2 (rows gxA)"
  "2 \<noteq> data gxA" "(2::nat) \<noteq> 1"
  by (simp_all add: wf_matrix_def wf_vector_def gxA_def gxh_def)

theorem gaxpy_row_column_agree_witness:
  "wf_matrix gxh gxA \<and> wf_vector gxh 1 (cols gxA) \<and> wf_vector gxh 2 (rows gxA) \<and>
   2 \<noteq> data gxA \<and> (2::nat) \<noteq> 1 \<and>
   gaxpy_row_oriented gxA 1 2 gxh = Inr (gxh(2 \<mapsto> [13, 27])) \<and>
   gaxpy_column_oriented gxA 1 2 gxh = Inr (gxh(2 \<mapsto> [13, 27]))"
proof -
  have "gaxpy_row_oriented gxA 1 2 gxh = Inr (gxh(2 \<mapsto> [13, 27]))"
    by (simp add: gaxpy_row_oriented_def for_loop.simps vadd_def mat_get_def buf_read_def
        buf_write_def in_range_def gxA_def gxh_def)
  with gaxpy_row_column_agree[OF gx_wf] gx_wf show ?thesis by auto
qed

text \<open>
  C4. For a matrix \<open>A\<close> of size \<open>m \<times> n\<close>, a vector \<open>x\<close> of length \<open>n\<close> and a vector \<open>y\<close> of
  length \<open>m\<close> with any initial contents, gaxpy (the C++ row-oriented kernel and the C
  routine alike) sets \<open>y[i]\<close> to its old value plus the sum of \<open>A[i][j] * x[j]\<close> over
  \<open>0 \<le> j < n\<close>, for every \<open>0 \<le> i < m\<close>: it adds to what \<open>y\<close> held.
\<close>

theorem gaxpy_accumulates:
  assumes "wf_matrix h A" and "wf_vector h x (cols A)" and "wf_vector h y (rows A)"
    and "y \<noteq> data A" and "y \<noteq> x"
  shows "\<exists>h'. gaxpy_row_oriented A x y h = Inr h' \<and> matrix_vector_mult A x y h = Inr h' \<and>
     (\<forall>i. 0 \<le> i \<and> i < rows A \<longrightarrow>
        buf_read h' y i =
          Inr (vec_at h y i + (\<Sum>j\<leftarrow>[0..cols A - 1]. mat_at h A i j * vec_at h x j)))"
proof -
  have pre: "gaxpy_pre h A x y" using assms by (simp add: gaxpy_pre_def)
  obtain buf where buf: "h y = Some buf"
    using assms(3) by (auto simp: wf_vector_def split: option.splits)
  let ?h' = "h(y \<mapsto> map (\<lambda>p. buf ! p + gaxpy_row h A x p) [0..<length buf])"
  have "gaxpy_row_oriented A x y h = Inr ?h'"
    using gaxpy_result[OF pre gaxpy_row_oriented_adds[OF pre]] buf by auto
  moreover have "matrix_vector_mult A x y h = Inr ?h'"
    using gaxpy_result[OF pre matrix_vector_mult_adds[OF pre]] buf by auto
  moreover have "\<forall>i. 0 \<le> i \<and> i < rows A \<longrightarrow>
        buf_read ?h' y i =
          Inr (vec_at h y i + (\<Sum>j\<leftarrow>[0..cols A - 1]. mat_at h A i j * vec_at h x j))"
    using gaxpy_elem[OF pre buf] by blast
  ultimately show ?thesis by (intro exI[of _ ?h'] conjI)
qed

text \<open>The instance of the test suite: \<open>y = [10, 20]\<close>, \<open>A = [[1, 2], [3, 4]]\<close>, \<open>x = [1, 1]\<close>.\<close>

theorem gaxpy_accumulates_witness:
  "wf_matrix gxh gxA \<and> wf_vector gxh 1 (cols gxA) \<and> wf_vector gxh 2 (rows gxA) \<and>
   2 \<noteq> data gxA \<and> (2::nat) \<noteq> 1 \<and>
   (\<exists>h'. gaxpy_row_oriented gxA 1 2 gxh = Inr h' \<and> matrix_vector_mult gxA 1 2 gxh = Inr h' \<and>
      buf_read h' 2 0 = Inr 13 \<and> buf_read h' 2 1 = Inr 27 \<and> h' 2 = Some [13, 27])"
proof -
  from gaxpy_accumulates[OF gx_wf]
  obtain h' where h': "gaxpy_row_oriented gxA 1 2 gxh = Inr h'"
      "matrix_vector_mult gxA 1 2 gxh = Inr h'"
    and el: "\<And>i. 0 \<le> i \<and> i < rows gxA \<Longrightarrow> buf_read h' 2 i =
       Inr (vec_at gxh 2 i + (\<Sum>j\<leftarrow>[0..cols gxA - 1]. mat_at gxh gxA i j * vec_at gxh 1 j))"
    by blast
  have v: "vec_at gxh 2 0 + (\<Sum>j\<leftarrow>[0..cols gxA - 1]. mat_at gxh gxA 0 j * vec_at gxh 1 j) = 13"
    "vec_at gxh 2 1 + (\<Sum>j\<leftarrow>[0..cols gxA - 1]. mat_at gxh gxA 1 j * vec_at gxh 1 j) = 27"
    by (simp_all add: upto.simps vec_at_def mat_at_def mat_get_def buf_read_def in_range_def
        gxA_def gxh_def)
  have r: "0 \<le> (0::int) \<and> 0 < rows gxA" "0 \<le> (1::int) \<and> 1 < rows gxA"
    by (simp_all add: gxA_def)
  have "gaxpy_row_oriented gxA 1 2 gxh = Inr (gxh(2 \<mapsto> [13, 27]))"
    by (simp add: gaxpy_row_oriented_def for_loop.simps vadd_def mat_get_def buf_read_def
        buf_write_def in_range_def gxA_def gxh_def)
  with h'(1) have "h' 2 = Some [13, 27]" by auto
  then show ?thesis
    using gx_wf h' el[OF r(1)] el[OF r(2)] v by (intro conjI exI[of _ h']) simp_all
qed

section \<open>Every access is in bounds\<close>

lemma safe_run:
  assumes "\<And>x. x \<in> set xs \<Longrightarrow> safe I (body x)"
  shows "safe I (run body xs)"
  using assms
proof (induction xs)
  case Nil
  show ?case by (simp add: safe_def)
next
  case (Cons x xs)
  have 1: "safe I (body x)" and 2: "safe I (run body xs)" using Cons by simp_all
  show ?case
    unfolding safe_def
  proof (intro allI impI)
    fix s assume "I s"
    with 1 obtain s1 where s1: "body x s = Inr s1" "I s1" by (auto simp: safe_def)
    with 2 obtain s2 where "run body xs s1 = Inr s2" "I s2" by (auto simp: safe_def)
    with s1 show "\<exists>s'. run body (x # xs) s = Inr s' \<and> I s'" by simp
  qed
qed

lemma safe_for_loop:
  assumes "\<And>x. lo \<le> x \<Longrightarrow> x < hi \<Longrightarrow> safe I (body x)"
  shows "safe I (for_loop lo hi body)"
proof -
  have "safe I (run body [lo..hi - 1])"
    by (rule safe_run) (simp add: assms)
  moreover have "for_loop lo hi body = run body [lo..hi - 1]"
    by (rule ext) (rule for_loop_run)
  ultimately show ?thesis by simp
qed

lemma safe_read:
  assumes "in_range M i j" and "\<And>s. I s \<Longrightarrow> wf_matrix s M" and "\<And>v. safe I (f v)"
  shows "safe I (\<lambda>s. ebind (mat_get s M i j) (\<lambda>a. f a s))"
  unfolding safe_def
proof (intro allI impI)
  fix s assume s: "I s"
  from mat_get_ok[OF assms(2)[OF s] assms(1)] assms(3) s
  show "\<exists>s'. ebind (mat_get s M i j) (\<lambda>a. f a s) = Inr s' \<and> I s'"
    by (simp add: safe_def)
qed

lemma buf_write_wf_matrix:
  assumes "h c = Some buf" "wf_matrix h M"
  shows "wf_matrix (h(c \<mapsto> buf[q := v])) M"
  using assms by (auto simp: wf_matrix_def)


lemma mat_set_ok:
  assumes "wf_matrix h M" "in_range M i j"
  shows "\<exists>buf. h (data M) = Some buf \<and>
     mat_set h M i j v = Inr (h(data M \<mapsto> buf[nat (i * cols M + j) := v]))"
proof -
  obtain buf where buf: "h (data M) = Some buf" "int (length buf) = rows M * cols M"
    using assms(1) by (auto simp: wf_matrix_def split: option.splits)
  have "0 \<le> i * cols M + j" "i * cols M + j < rows M * cols M"
    using assms(2) offset_bound[of i "rows M" j "cols M"] by (auto simp: in_range_def)
  then show ?thesis
    using buf assms(2) by (simp add: mat_set_def buf_write_def)
qed

lemma safe_write_gemm:
  assumes "in_range C i j"
  shows "safe (gemm_inv A B C) (\<lambda>h. mat_set h C i j v)"
  unfolding safe_def
proof (intro allI impI)
  fix h assume inv: "gemm_inv A B C h"
  then have "wf_matrix h C" by (simp add: gemm_inv_def)
  from mat_set_ok[OF this assms, of v] obtain buf where
    buf: "h (data C) = Some buf"
    "mat_set h C i j v = Inr (h(data C \<mapsto> buf[nat (i * cols C + j) := v]))"
    by blast
  with inv show "\<exists>h'. mat_set h C i j v = Inr h' \<and> gemm_inv A B C h'"
    by (simp add: gemm_inv_def buf_write_wf_matrix)
qed

lemma gemm_inv_wf:
  "gemm_inv A B C h \<Longrightarrow> wf_matrix h A"
  "gemm_inv A B C h \<Longrightarrow> wf_matrix h B"
  "gemm_inv A B C h \<Longrightarrow> wf_matrix h C"
  by (simp_all add: gemm_inv_def)

lemma madd_safe:
  assumes "in_range A i k" "in_range B k j" "in_range C i j"
  shows "safe (gemm_inv A B C) (madd A B C i j k)"
  unfolding madd_def[abs_def]
  by (intro safe_read safe_write_gemm assms gemm_inv_wf)


lemma saxpy_row_safe:
  assumes dims: "cols A = rows B" "rows C = rows A" "cols C = cols B"
    and i: "0 \<le> i" "i < rows A" and k: "0 \<le> k" "k < cols A"
    and jr: "0 \<le> jj" "j_end \<le> cols B"
  shows "safe (gemm_inv A B C) (\<lambda>h. ebind (mat_get h A i k) (\<lambda>a_ik.
        for_loop jj j_end (\<lambda>j h.
          ebind (mat_get h B k j) (\<lambda>b.
          ebind (mat_get h C i j) (\<lambda>c.
          mat_set h C i j (c + a_ik * b)))) h))"
  using assms
  by (intro safe_read safe_for_loop safe_write_gemm gemm_inv_wf)
     (simp_all add: in_range_def)














section \<open>Tile indices beyond the range of an \<open>int\<close>\<close>

text \<open>
  With \<open>2\<^sup>3\<^sup>0 + 1\<close> rows and \<open>block_size = 2\<^sup>3\<^sup>0\<close> the first tile covers the rows
  \<open>0, \<dots>, 2\<^sup>3\<^sup>0 - 1\<close>. For the second, \<open>ii + block_size\<close> is \<open>2\<^sup>3\<^sup>1\<close>, which is not an
  \<open>int\<close>: the wrapped bound \<open>-2\<^sup>3\<^sup>1\<close> makes the tile empty, and \<^verbatim>\<open>ii += block_size\<close>
  continues at \<open>ii = -2\<^sup>3\<^sup>1\<close>, which is below the number of rows. That tile starts with
  the row index \<open>i = -2\<^sup>3\<^sup>1\<close>.
\<close>

lemma for_step_once:
  assumes "0 < hi" "hi \<le> add32 0 step"
  shows "for_step 0 hi step body s = body 0 s"
  using assms
  by (subst for_step.simps) (simp add: for_step_exit split: option.splits sum.splits)

lemma add32_big:
  "add32 0 1073741824 = 1073741824"
  "add32 1073741824 1073741824 = - 2147483648"
  "add32 (- 2147483648) 1073741824 = - 1073741824"
  by (simp_all add: add32_def int32_def)

lemma gemm_blocked_wraps:
  assumes inv: "gemm_inv A B C h"
    and dims: "cols A = rows B" "rows C = rows A" "cols C = cols B"
    and sz: "rows A = 1073741825" "cols A = 1" "cols B = 1"
  shows "gemm_blocked A B C 1073741824 h = Some (Inl IndexOutOfRange)"
proof -
  let ?bs = "1073741824 :: int"
  let ?m = "1073741825 :: int"
  let ?F = "\<lambda>ii. outer_block_middle_loop A B C ii ?bs ?m 1 1"
  have mid: "?F ii t =
      Some (inner_block_outer_loop A B C ii 0 0 (min (add32 ii ?bs) ?m) 1 1 t)" for ii t
    unfolding outer_block_middle_loop_def outer_block_inner_loop_def Let_def
    by (simp add: for_step_once add32_big)
  have rB: "rows B = 1" using dims sz by simp
  have "safe (gemm_inv A B C) (inner_block_outer_loop A B C 0 0 0 ?bs 1 1)"
    unfolding inner_block_outer_loop_def inner_block_middle_loop_def inner_block_inner_loop_def
    by (intro safe_for_loop madd_safe; simp add: in_range_def dims(2,3) sz rB)
  with inv obtain h1 where h1: "inner_block_outer_loop A B C 0 0 0 ?bs 1 1 h = Inr h1"
    by (auto simp: safe_def)
  have t0: "?F 0 h = Some (Inr h1)"
    using h1 by (simp add: mid add32_big)
  have t1: "?F ?bs h1 = Some (Inr h1)"
    by (simp add: mid add32_big inner_block_outer_loop_def for_loop_empty)
  have "inner_block_outer_loop A B C (- 2147483648) 0 0 (- ?bs) 1 1 h1 = Inl IndexOutOfRange"
    by (simp add: inner_block_outer_loop_def inner_block_middle_loop_def
        inner_block_inner_loop_def for_loop.simps madd_def mat_get_def in_range_def)
  then have t2: "?F (- 2147483648) h1 = Some (Inl IndexOutOfRange)"
    by (simp add: mid add32_big)
  have "gemm_blocked A B C ?bs h = for_step 0 ?m ?bs ?F h"
    by (simp add: gemm_blocked_def Let_def outer_block_outer_loop_def sz)
  also have "\<dots> = for_step ?bs ?m ?bs ?F h1"
    using for_step_step[of 0 ?m ?F h h1 ?bs] t0 by (simp add: add32_big)
  also have "\<dots> = for_step (- 2147483648) ?m ?bs ?F h1"
    using for_step_step[of ?bs ?m ?F h1 h1 ?bs] t1 by (simp add: add32_big)
  also have "\<dots> = Some (Inl IndexOutOfRange)"
    using for_step_err[of "- 2147483648" ?m ?F h1 IndexOutOfRange ?bs] t2 by simp
  finally show ?thesis .
qed

lemma matmul_blocked_wraps:
  assumes inv: "gemm_inv A B C h"
    and dims: "cols A = rows B" "rows C = rows A" "cols C = cols B"
    and sz: "rows A = 1073741825" "cols A = 1" "cols B = 1"
  shows "matmul_blocked C A B 1073741824 h = Some (Inl IndexOutOfRange)"
proof -
  let ?bs = "1073741824 :: int"
  let ?m = "1073741825 :: int"
  let ?T = "\<lambda>ii i_end. for_loop ii i_end (\<lambda>i.
          for_loop 0 1 (\<lambda>k h.
            ebind (mat_get h A i k) (\<lambda>a_ik.
              for_loop 0 1 (\<lambda>j h.
                ebind (mat_get h B k j) (\<lambda>b.
                ebind (mat_get h C i j) (\<lambda>c.
                mat_set h C i j (c + a_ik * b)))) h)))"
  let ?F = "\<lambda>ii. for_step 0 1 ?bs (\<lambda>jj. for_step 0 1 ?bs (\<lambda>kk h.
      Some (for_loop ii (if add32 ii ?bs < ?m then add32 ii ?bs else ?m) (\<lambda>i.
          for_loop kk (if add32 kk ?bs < 1 then add32 kk ?bs else 1) (\<lambda>k h.
            ebind (mat_get h A i k) (\<lambda>a_ik.
              for_loop jj (if add32 jj ?bs < 1 then add32 jj ?bs else 1) (\<lambda>j h.
                ebind (mat_get h B k j) (\<lambda>b.
                ebind (mat_get h C i j) (\<lambda>c.
                mat_set h C i j (c + a_ik * b)))) h))) h)))"
  have mid: "?F ii t = Some (?T ii (if add32 ii ?bs < ?m then add32 ii ?bs else ?m) t)" for ii t
    by (simp add: for_step_once add32_big)
  have "safe (gemm_inv A B C) (?T 0 ?bs)"
    by (intro safe_for_loop saxpy_row_safe dims; simp add: sz)
  with inv obtain h1 where h1: "?T 0 ?bs h = Inr h1"
    by (auto simp: safe_def)
  have t0: "?F 0 h = Some (Inr h1)"
    using h1 mid[of 0 h] by (simp add: add32_big)
  have t1: "?F ?bs h1 = Some (Inr h1)"
    using mid[of ?bs h1] by (simp add: add32_big for_loop_empty)
  have "?T (- 2147483648) (- ?bs) h1 = Inl IndexOutOfRange"
    by (simp add: for_loop.simps mat_get_def in_range_def)
  then have t2: "?F (- 2147483648) h1 = Some (Inl IndexOutOfRange)"
    using mid[of "- 2147483648" h1] by (simp add: add32_big)
  have "matmul_blocked C A B ?bs h = for_step 0 ?m ?bs ?F h"
    by (simp add: matmul_blocked_def Let_def sz)
  also have "\<dots> = for_step ?bs ?m ?bs ?F h1"
    using for_step_step[of 0 ?m ?F h h1 ?bs] t0 by (simp add: add32_big)
  also have "\<dots> = for_step (- 2147483648) ?m ?bs ?F h1"
    using for_step_step[of ?bs ?m ?F h1 h1 ?bs] t1 by (simp add: add32_big)
  also have "\<dots> = Some (Inl IndexOutOfRange)"
    using for_step_err[of "- 2147483648" ?m ?F h1 IndexOutOfRange ?bs] t2 by simp
  finally show ?thesis .
qed

lemma zero_product:
  assumes pre: "gemm_pre h A B C"
    and f: "adds_into h (data C) (nat (rows C * cols C)) f (dotp h A B)"
    and zA: "\<forall>i k. mat_at h A i k = 0"
  shows "f h = Inr h"
proof -
  from adds_dotp_result[OF pre f] obtain buf where buf: "h (data C) = Some buf"
    and res: "f h = Inr (h(data C \<mapsto> map (\<lambda>p. buf ! p + dotp h A B p) [0..<length buf]))"
    by blast
  have "dotp h A B p = 0" for p by (simp add: dotp_def zA)
  then have "map (\<lambda>p. buf ! p + dotp h A B p) [0..<length buf] = buf"
    by (simp add: map_nth)
  with buf res show ?thesis by (simp add: fun_upd_idem)
qed

lemma bg_wf: "wf_matrix bgh bgA" "wf_matrix bgh bgB" "wf_matrix bgh bgC"
  by (simp_all add: wf_matrix_def bgA_def bgB_def bgC_def bgh_def)

lemma bg_dims: "cols bgA = rows bgB" "rows bgC = rows bgA" "cols bgC = cols bgB"
  by (simp_all add: bgA_def bgB_def bgC_def)

lemma bg_size: "rows bgA = 1073741825" "cols bgA = 1" "cols bgB = 1"
  by (simp_all add: bgA_def bgB_def)

lemma bg_zero: "mat_at bgh bgA i k = 0"
  by (auto simp: mat_at_def mat_get_def buf_read_def bgA_def bgh_def)

text \<open>
  C1 as the specification words it (every block size \<open>\<ge> 1\<close>) fails. On the zero
  matrices \<open>A\<close> of size \<open>(2\<^sup>3\<^sup>0 + 1) \<times> 1\<close> and \<open>B\<close> of size \<open>1 \<times> 1\<close> the naive ikj kernels
  return the store as it was (every product is 0), while both blocked kernels, called
  with \<open>block_size = 2\<^sup>3\<^sup>0\<close>, end in an access to row \<open>-2\<^sup>3\<^sup>1\<close>.
\<close>

theorem blocked_differs_from_naive_ikj:
  "wf_matrix bgh bgA \<and> wf_matrix bgh bgB \<and> wf_matrix bgh bgC \<and>
   cols bgA = rows bgB \<and> rows bgC = rows bgA \<and> cols bgC = cols bgB \<and>
   data bgC \<noteq> data bgA \<and> data bgC \<noteq> data bgB \<and> (1::int) \<le> 1073741824 \<and>
   gemm_ikj bgA bgB bgC bgh = Inr bgh \<and>
   gemm_blocked bgA bgB bgC 1073741824 bgh = Some (Inl IndexOutOfRange) \<and>
   matmul_ikj bgC bgA bgB bgh = Inr bgh \<and>
   matmul_blocked bgC bgA bgB 1073741824 bgh = Some (Inl IndexOutOfRange)"
proof -
  have al: "data bgC \<noteq> data bgA" "data bgC \<noteq> data bgB"
    by (simp_all add: bgA_def bgB_def bgC_def)
  have pre: "gemm_pre bgh bgA bgB bgC"
    using bg_wf bg_dims al by (simp add: gemm_pre_def)
  have inv: "gemm_inv bgA bgB bgC bgh"
    using bg_wf by (simp add: gemm_inv_def)
  have z: "\<forall>i k. mat_at bgh bgA i k = 0" by (simp add: bg_zero)
  show ?thesis
    using bg_wf bg_dims al
      zero_product[OF pre gemm_ikj_dotp[OF pre] z] zero_product[OF pre matmul_ikj_dotp[OF pre] z]
      gemm_blocked_wraps[OF inv bg_dims bg_size] matmul_blocked_wraps[OF inv bg_dims bg_size]
    by simp
qed


section \<open>Termination of the loops\<close>

lemma tile_starts_unit: "tile_starts lo hi 1 = [lo..hi - 1]"
proof (induction lo hi "1::int" rule: tile_starts.induct)
  case (1 ii hi)
  show ?case
  proof (cases "ii < hi")
    case True
    then have "tile_starts ii hi 1 = ii # tile_starts (ii + 1) hi 1"
      by (subst tile_starts.simps) simp
    moreover have "[ii..hi - 1] = ii # [ii + 1..hi - 1]"
      using True by (simp add: upto_rec1)
    ultimately show ?thesis using 1 True by simp
  next
    case False
    then have "tile_starts ii hi 1 = []" by (subst tile_starts.simps) simp
    with False show ?thesis by simp
  qed
qed

lemma for_step_cycle:
  assumes "for_step lo hi step body s = Some y"
  shows "\<not> (lo \<in> S \<and> (\<forall>x \<in> S. x < hi \<and> add32 x step \<in> S) \<and>
            (\<forall>x \<in> S. \<forall>t e. body x t \<noteq> Some (Inl e)))"
  using assms
proof (induction rule: for_step.raw_induct[rotated 1, consumes 1])
  case (1 for_step' lo hi step body s y)
  show ?case
  proof
    assume a: "lo \<in> S \<and> (\<forall>x \<in> S. x < hi \<and> add32 x step \<in> S) \<and>
            (\<forall>x \<in> S. \<forall>t e. body x t \<noteq> Some (Inl e))"
    then have lt: "lo < hi" and nx: "add32 lo step \<in> S" by auto
    show False
    proof (cases "body lo s")
      case None
      with lt 1(2) show False by simp
    next
      case (Some r)
      with a obtain t' where t': "body lo s = Some (Inr t')"
        by (cases r) auto
      with lt 1(2) have "for_step' (add32 lo step) hi step body t' = Some y" by simp
      from 1(1)[OF this] a nx show False by blast
    qed
  qed
qed

lemma gemm_blocked_cycles:
  assumes "rows A = 1073741825" "cols B = 0"
  shows "gemm_blocked A B C 1073741824 h = None"
proof (cases "gemm_blocked A B C 1073741824 h")
  case (Some y)
  have body: "outer_block_middle_loop A B C ii 1073741824 1073741825 0 r t = Some (Inr t)"
    for ii r t
    unfolding outer_block_middle_loop_def by (rule for_step_exit) simp
  have "for_step 0 1073741825 1073741824
      (\<lambda>ii. outer_block_middle_loop A B C ii 1073741824 1073741825 0 (cols A)) h = Some y"
    using Some assms by (simp add: gemm_blocked_def Let_def outer_block_outer_loop_def)
  from for_step_cycle[OF this, of "{0, 1073741824, - 2147483648, - 1073741824}"] body
  show ?thesis by (simp add: add32_def int32_def)
qed simp

lemma matmul_blocked_cycles:
  assumes "rows A = 1073741825" "cols B = 0"
  shows "matmul_blocked C A B 1073741824 h = None"
proof (cases "matmul_blocked C A B 1073741824 h")
  case (Some y)
  have body: "for_step 0 0 1073741824 f t = Some (Inr t)" for f :: "int \<Rightarrow> heap \<Rightarrow> (error + heap) option" and t
    by (rule for_step_exit) simp
  from Some assms obtain F where
    F: "for_step 0 1073741825 1073741824 (\<lambda>ii. for_step 0 0 1073741824 (F ii)) h = Some y"
    unfolding matmul_blocked_def Let_def by auto
  from for_step_cycle[OF this, of "{0, 1073741824, - 2147483648, - 1073741824}"] body
  show ?thesis by (simp add: add32_def int32_def)
qed simp

text \<open>
  C6, within the range of an \<open>int\<close>. The unit-step loops of the naive kernels are total
  (\<open>for_loop\<close> is a total function, and the same loop run with a step of one returns its
  value when the bounds are \<open>int\<close>s), and with a block size \<open>bs \<ge> 1\<close> for which the tile
  origins of all three dimensions stay representable (\<open>tiles_fit\<close>), the tile loops of
  both blocked kernels return for every input: each step strictly increases the tile
  index.
\<close>

theorem kernels_terminate:
  assumes "1 \<le> bs"
    and "tiles_fit (rows A) bs" and "tiles_fit (cols B) bs" and "tiles_fit (cols A) bs"
    and "INT_MIN \<le> lo" and "hi \<le> INT_MAX"
  shows "(\<exists>res. gemm_blocked A B C bs h = Some res) \<and>
         (\<exists>res. matmul_blocked C A B bs h = Some res) \<and>
         for_step lo hi 1 (\<lambda>i s. Some (body i s)) s = Some (for_loop lo hi body s)"
proof -
  have bs: "0 < bs" using assms by simp
  note fit = assms(2-4)
  have "\<exists>res. gemm_blocked A B C bs h = Some res"
    by (simp add: gemm_blocked_run[OF bs fit])
  moreover have "\<exists>res. matmul_blocked C A B bs h = Some res"
    by (simp add: matmul_blocked_run[OF bs fit])
  moreover have "for_step lo hi 1 (\<lambda>i s. Some (body i s)) s = Some (for_loop lo hi body s)"
    using assms(5,6) by (simp add: for_step_run tile_starts_unit for_loop_run)
  ultimately show ?thesis by blast
qed

theorem kernels_terminate_witness:
  "(1::int) \<le> 3 \<and> tiles_fit (rows exA) 3 \<and> tiles_fit (cols exB) 3 \<and> tiles_fit (cols exA) 3 \<and>
   INT_MIN \<le> 0 \<and> 3 \<le> INT_MAX \<and>
   (\<exists>res. gemm_blocked exA exB exC 3 exh = Some res) \<and>
   (\<exists>res. matmul_blocked exC exA exB 3 exh = Some res) \<and>
   for_step 0 3 1 (\<lambda>i s. Some (Inr (s + i))) (0::int) = Some (Inr 3)"
proof -
  have b: "(1::int) \<le> 3" by simp
  have f: "tiles_fit (rows exA) 3" "tiles_fit (cols exB) 3" "tiles_fit (cols exA) 3"
    by (simp_all add: tiles_fit_def INT_MAX_def exA_def exB_def)
  have r: "INT_MIN \<le> 0" "3 \<le> INT_MAX" by (simp_all add: INT_MIN_def INT_MAX_def)
  have "for_loop 0 3 (\<lambda>i s. Inr (s + i)) (0::int) = Inr 3"
    by (simp add: for_loop.simps)
  with kernels_terminate[OF b f r, of exC exh "\<lambda>i s. Inr (s + i)" "0::int"] f r
  show ?thesis by simp
qed

text \<open>
  C6 as the specification words it (every block size \<open>\<ge> 1\<close>) fails. With \<open>2\<^sup>3\<^sup>0 + 1\<close> rows,
  no columns and \<open>block_size = 2\<^sup>3\<^sup>0\<close> the statement \<^verbatim>\<open>ii += block_size\<close> takes \<open>ii\<close> from
  \<open>2\<^sup>3\<^sup>0\<close> to \<open>2\<^sup>3\<^sup>1\<close>, which is not an \<open>int\<close>; the wrapped index runs through
  \<open>0, 2\<^sup>3\<^sup>0, -2\<^sup>3\<^sup>1, -2\<^sup>3\<^sup>0, 0, \<dots>\<close>, all below the number of rows, and neither blocked
  kernel returns.
\<close>

theorem tile_index_overflow_diverges:
  "(1::int) \<le> 1073741824 \<and> wf_matrix ovh ovA \<and> wf_matrix ovh ovB \<and> wf_matrix ovh ovC \<and>
   cols ovA = rows ovB \<and> rows ovC = rows ovA \<and> cols ovC = cols ovB \<and>
   gemm_blocked ovA ovB ovC 1073741824 ovh = None \<and>
   matmul_blocked ovC ovA ovB 1073741824 ovh = None"
  using gemm_blocked_cycles[of ovA ovB ovC ovh] matmul_blocked_cycles[of ovA ovB ovC ovh]
  by (simp add: wf_matrix_def ovA_def ovB_def ovC_def ovh_def)

section \<open>Block sizes that are not positive\<close>






lemma run_skip:
  assumes "\<And>x s. x \<in> set xs \<Longrightarrow> body x s = Inr s"
  shows "run body xs s = Inr s"
  using assms by (induction xs) simp_all

lemma for_loop_skip:
  assumes "\<And>i s. lo \<le> i \<Longrightarrow> i < hi \<Longrightarrow> body i s = Inr s"
  shows "for_loop lo hi body s = Inr s"
  unfolding for_loop_run by (rule run_skip) (simp add: assms)

lemma add32_neg:
  "add32 0 (- 1073741824) = - 1073741824"
  "add32 (- 1073741824) (- 1073741824) = - 2147483648"
  "add32 (- 2147483648) (- 1073741824) = 1073741824"
  by (simp_all add: add32_def int32_def)

lemma for_step_sweep:
  assumes "0 < hi" "hi \<le> 1073741824"
    and "\<And>t. body 0 t = Some (Inr t)" "\<And>t. body (- 1073741824) t = Some (Inr t)"
      "\<And>t. body (- 2147483648) t = Some (Inr t)"
  shows "for_step 0 hi (- 1073741824) body s = Some (Inr s)"
proof -
  have "for_step 0 hi (- 1073741824) body s = for_step (- 1073741824) hi (- 1073741824) body s"
    using for_step_step[of 0 hi body s s "- 1073741824"] assms by (simp add: add32_neg)
  also have "\<dots> = for_step (- 2147483648) hi (- 1073741824) body s"
    using for_step_step[of "- 1073741824" hi body s s "- 1073741824"] assms
    by (simp add: add32_neg)
  also have "\<dots> = for_step 1073741824 hi (- 1073741824) body s"
    using for_step_step[of "- 2147483648" hi body s s "- 1073741824"] assms
    by (simp add: add32_neg)
  also have "\<dots> = Some (Inr s)"
    using assms by (intro for_step_exit) simp
  finally show ?thesis .
qed

text \<open>
  A negative block size is not validated either. It drives the tile index down until
  \<open>ii + block_size\<close> is below the least \<open>int\<close>; the wrapped bounds then describe a tile
  that starts at a negative index. With \<open>block_size = -2\<^sup>3\<^sup>0\<close> on \<open>2 \<times> 2\<close> matrices the
  C kernel reaches the tile at \<open>ii = kk = -2\<^sup>3\<^sup>1\<close> and reads \<open>A(-2\<^sup>3\<^sup>1, -2\<^sup>3\<^sup>1)\<close>.
\<close>

lemma negative_block_size_out_of_bounds:
  "matmul_blocked exC exA exB (- 1073741824) exh = Some (Inl IndexOutOfRange)"
proof -
  let ?bs = "- 1073741824 :: int"
  let ?T = "\<lambda>ii jj kk. for_loop ii (if add32 ii ?bs < 2 then add32 ii ?bs else 2) (\<lambda>i.
          for_loop kk (if add32 kk ?bs < 2 then add32 kk ?bs else 2) (\<lambda>k h.
            ebind (mat_get h exA i k) (\<lambda>a_ik.
              for_loop jj (if add32 jj ?bs < 2 then add32 jj ?bs else 2) (\<lambda>j h.
                ebind (mat_get h exB k j) (\<lambda>b.
                ebind (mat_get h exC i j) (\<lambda>c.
                mat_set h exC i j (c + a_ik * b)))) h)))"
  let ?K = "\<lambda>ii jj. for_step 0 2 ?bs (\<lambda>kk h. Some (?T ii jj kk h))"
  let ?F = "\<lambda>ii. for_step 0 2 ?bs (?K ii)"
  have e0: "?T 0 jj kk t = Inr t" "?T ?bs jj kk t = Inr t" for jj kk t
    by (simp_all add: add32_neg for_loop_empty)
  have k0: "?K 0 jj t = Some (Inr t)" "?K ?bs jj t = Some (Inr t)" for jj t
    by (rule for_step_sweep; simp add: e0)+
  have f0: "?F 0 t = Some (Inr t)" "?F ?bs t = Some (Inr t)" for t
    by (rule for_step_sweep; simp add: k0)+
  have s1: "?T (- 2147483648) 0 0 t = Inr t" "?T (- 2147483648) 0 ?bs t = Inr t" for t
    by (rule for_loop_skip; simp add: add32_neg for_loop_empty)+
  have s2: "?T (- 2147483648) 0 (- 2147483648) t = Inl IndexOutOfRange" for t
    by (simp add: add32_neg for_loop.simps mat_get_def in_range_def exA_def)
  have "?K (- 2147483648) 0 t = for_step ?bs 2 ?bs (\<lambda>kk h. Some (?T (- 2147483648) 0 kk h)) t" for t
    using for_step_step[of 0 2 "\<lambda>kk h. Some (?T (- 2147483648) 0 kk h)" t t ?bs] s1(1)[of t]
    by (simp add: add32_neg)
  also have "for_step ?bs 2 ?bs (\<lambda>kk h. Some (?T (- 2147483648) 0 kk h)) t =
      for_step (- 2147483648) 2 ?bs (\<lambda>kk h. Some (?T (- 2147483648) 0 kk h)) t" for t
    using for_step_step[of ?bs 2 "\<lambda>kk h. Some (?T (- 2147483648) 0 kk h)" t t ?bs] s1(2)[of t]
    by (simp add: add32_neg)
  also have "for_step (- 2147483648) 2 ?bs (\<lambda>kk h. Some (?T (- 2147483648) 0 kk h)) t =
      Some (Inl IndexOutOfRange)" for t
    using for_step_err[of "- 2147483648" 2 "\<lambda>kk h. Some (?T (- 2147483648) 0 kk h)" t
        IndexOutOfRange ?bs] s2[of t]
    by simp
  finally have k2: "?K (- 2147483648) 0 t = Some (Inl IndexOutOfRange)" for t .
  have f2: "?F (- 2147483648) t = Some (Inl IndexOutOfRange)" for t
    using for_step_err[of 0 2 "?K (- 2147483648)" t IndexOutOfRange ?bs] k2[of t] by simp
  have "matmul_blocked exC exA exB ?bs exh = for_step 0 2 ?bs ?F exh"
    by (simp add: matmul_blocked_def Let_def exA_def exB_def)
  also have "\<dots> = for_step ?bs 2 ?bs ?F exh"
    using for_step_step[of 0 2 ?F exh exh ?bs] f0(1)[of exh] by (simp add: add32_neg)
  also have "\<dots> = for_step (- 2147483648) 2 ?bs ?F exh"
    using for_step_step[of ?bs 2 ?F exh exh ?bs] f0(2)[of exh] by (simp add: add32_neg)
  also have "\<dots> = Some (Inl IndexOutOfRange)"
    using for_step_err[of "- 2147483648" 2 ?F exh IndexOutOfRange ?bs] f2[of exh] by simp
  finally show ?thesis .
qed




section \<open>The kernels write the accumulator only\<close>

lemma for_step_unchanged:
  assumes "for_step lo hi step body s = Some y"
  shows "(\<forall>x t t'. body x t = Some (Inr t') \<longrightarrow> unchanged_except c t t') \<longrightarrow>
         (\<forall>s'. y = Inr s' \<longrightarrow> unchanged_except c s s')"
  using assms
proof (induction rule: for_step.raw_induct[rotated 1, consumes 1])
  case (1 for_step' lo hi step body s y)
  show ?case
  proof (intro impI allI)
    fix s' assume a: "\<forall>x t t'. body x t = Some (Inr t') \<longrightarrow> unchanged_except c t t'"
      and y: "y = Inr s'"
    show "unchanged_except c s s'"
    proof (cases "lo < hi")
      case True
      show ?thesis
      proof (cases "body lo s")
        case None
        with True 1(2) show ?thesis by simp
      next
        case (Some r)
        show ?thesis
        proof (cases r)
          case (Inl e)
          with Some True 1(2) y show ?thesis by simp
        next
          case (Inr t')
          with Some True 1(2) have "for_step' (add32 lo step) hi step body t' = Some y" by simp
          from 1(1)[OF this] a y have "unchanged_except c t' s'" by blast
          moreover have "unchanged_except c s t'" using a Some Inr by blast
          ultimately show ?thesis by (auto simp: unchanged_except_def)
        qed
      qed
    next
      case False
      with 1(2) y show ?thesis by (auto simp: unchanged_except_def)
    qed
  qed
qed

lemma writes_only_run:
  assumes "\<And>x. writes_only c (body x)"
  shows "writes_only c (run body xs)"
proof (induction xs)
  case Nil
  show ?case by (simp add: writes_only_def unchanged_except_def)
next
  case (Cons x xs)
  show ?case
    unfolding writes_only_def
  proof (intro allI impI)
    fix h h' assume r: "run body (x # xs) h = Inr h'"
    then obtain h1 where h1: "body x h = Inr h1" "run body xs h1 = Inr h'"
      by (auto split: sum.splits)
    have "unchanged_except c h h1" using assms h1(1) by (auto simp: writes_only_def)
    moreover have "unchanged_except c h1 h'" using Cons h1(2) by (auto simp: writes_only_def)
    ultimately show "unchanged_except c h h'" by (auto simp: unchanged_except_def)
  qed
qed

lemma writes_only_for_loop:
  assumes "\<And>x. writes_only c (body x)"
  shows "writes_only c (for_loop lo hi body)"
proof -
  have "for_loop lo hi body = run body [lo..hi - 1]"
    by (rule ext) (rule for_loop_run)
  with writes_only_run[of c body, OF assms] show ?thesis by simp
qed

lemma writes_only_bind:
  assumes "\<And>v. writes_only c (f v)"
  shows "writes_only c (\<lambda>h. ebind (g h) (\<lambda>a. f a h))"
  unfolding writes_only_def
proof (intro allI impI)
  fix h h' assume "ebind (g h) (\<lambda>a. f a h) = Inr h'"
  then obtain v where "f v h = Inr h'" by (cases "g h") auto
  with assms show "unchanged_except c h h'" by (auto simp: writes_only_def)
qed

lemma writes_only_buf_write: "writes_only c (\<lambda>h. buf_write h c k v)"
  by (auto simp: writes_only_def unchanged_except_def buf_write_def
      split: option.splits if_splits)

lemma writes_only_mat_set: "writes_only (data C) (\<lambda>h. mat_set h C i j v)"
  using writes_only_buf_write[of "data C" "i * cols C + j" v]
  by (auto simp: writes_only_def mat_set_def split: if_splits)

lemma writes_only_madd: "writes_only (data C) (madd A B C i j k)"
  unfolding madd_def[abs_def] by (intro writes_only_bind writes_only_mat_set)

lemma writes_only_vadd: "writes_only y (vadd A x y i j)"
  unfolding vadd_def[abs_def] by (intro writes_only_bind writes_only_buf_write)

lemma writes_only_naive:
  "writes_only (data C) (gemm_ijk A B C)" "writes_only (data C) (gemm_jik A B C)"
  "writes_only (data C) (gemm_ikj A B C)" "writes_only (data C) (gemm_jki A B C)"
  "writes_only (data C) (gemm_kij A B C)" "writes_only (data C) (gemm_kji A B C)"
  unfolding gemm_ijk_def gemm_jik_def gemm_ikj_def gemm_jki_def gemm_kij_def gemm_kji_def
  by (intro writes_only_for_loop writes_only_madd)+

lemma writes_only_naive_c:
  "writes_only (data C) (matmul_ijk C A B)" "writes_only (data C) (matmul_jik C A B)"
  "writes_only (data C) (matmul_saxpy C A B)" "writes_only (data C) (matmul_ikj C A B)"
  "writes_only (data C) (matmul_outer_product C A B)" "writes_only (data C) (matmul_kij C A B)"
  "writes_only (data C) (matmul_ikj_inlined C A B)"
  unfolding matmul_ijk_def matmul_jik_def matmul_saxpy_def matmul_ikj_def
    matmul_outer_product_def matmul_kij_def matmul_ikj_inlined_def Let_def
    inner_dot_product_def inner_saxpy_row_def[abs_def] inner_saxpy_column_def[abs_def]
  by (intro writes_only_for_loop writes_only_bind writes_only_mat_set)+

lemma writes_only_gaxpy:
  "writes_only y (gaxpy_row_oriented A x y)" "writes_only y (gaxpy_column_oriented A x y)"
  "writes_only y (matrix_vector_mult A x y)"
  unfolding gaxpy_row_oriented_def gaxpy_column_oriented_def matrix_vector_mult_def
  by (intro writes_only_for_loop writes_only_vadd)+

lemma writes_only_D: "writes_only c f \<Longrightarrow> f h = Inr h' \<Longrightarrow> unchanged_except c h h'"
  by (simp add: writes_only_def)

lemma gemm_blocked_unchanged:
  assumes "gemm_blocked A B C bs h = Some (Inr h')"
  shows "unchanged_except (data C) h h'"
proof -
  have "writes_only (data C) (inner_block_outer_loop A B C ii kk jj i_max j_max k_max)"
    for ii kk jj i_max j_max k_max
    unfolding inner_block_outer_loop_def inner_block_middle_loop_def inner_block_inner_loop_def
    by (intro writes_only_for_loop writes_only_madd)
  note inner = writes_only_D[OF this]
  have l1: "unchanged_except (data C) t t'"
    if "outer_block_inner_loop A B C ii jj bs m n r t = Some (Inr t')" for ii jj m n r t t'
    using for_step_unchanged[OF that[unfolded outer_block_inner_loop_def], of "data C"] inner
    by (auto simp: Let_def)
  have l2: "unchanged_except (data C) t t'"
    if "outer_block_middle_loop A B C ii bs m n r t = Some (Inr t')" for ii m n r t t'
    using for_step_unchanged[OF that[unfolded outer_block_middle_loop_def], of "data C"] l1
    by blast
  show ?thesis
    using for_step_unchanged[OF assms[unfolded gemm_blocked_def Let_def outer_block_outer_loop_def],
        of "data C"] l2
    by blast
qed

lemma matmul_blocked_unchanged:
  assumes "matmul_blocked C A B bs h = Some (Inr h')"
  shows "unchanged_except (data C) h h'"
proof -
  let ?inner = "\<lambda>ii jj kk. for_loop ii (if add32 ii bs < rows A then add32 ii bs else rows A) (\<lambda>i.
          for_loop kk (if add32 kk bs < cols A then add32 kk bs else cols A) (\<lambda>k h.
            ebind (mat_get h A i k) (\<lambda>a_ik.
              for_loop jj (if add32 jj bs < cols B then add32 jj bs else cols B) (\<lambda>j h.
                ebind (mat_get h B k j) (\<lambda>b.
                ebind (mat_get h C i j) (\<lambda>c.
                mat_set h C i j (c + a_ik * b)))) h)))"
  have inner: "writes_only (data C) (?inner ii jj kk)" for ii jj kk
    by (intro writes_only_for_loop writes_only_bind writes_only_mat_set)
  have l1: "unchanged_except (data C) t t'"
    if "for_step 0 (cols A) bs (\<lambda>kk h. Some (?inner ii jj kk h)) t = Some (Inr t')"
    for ii jj t t'
    using for_step_unchanged[OF that, of "data C"] writes_only_D[OF inner] by auto
  have l2: "unchanged_except (data C) t t'"
    if "for_step 0 (cols B) bs (\<lambda>jj. for_step 0 (cols A) bs (\<lambda>kk h. Some (?inner ii jj kk h))) t
         = Some (Inr t')" for ii t t'
    using for_step_unchanged[OF that, of "data C"] l1 by blast
  show ?thesis
    using for_step_unchanged[OF assms[unfolded matmul_blocked_def Let_def], of "data C"] l2
    by blast
qed

text \<open>
  C8. A successful run of any GEMM kernel changes no buffer other than that of \<open>C\<close>,
  and keeps the length of that one: the buffers of \<open>A\<close> and \<open>B\<close> (when \<open>C\<close> does not share
  one with them) hold exactly what they held before. Likewise a gaxpy kernel changes
  only the buffer of \<open>y\<close>, so \<open>A\<close> and \<open>x\<close> are as before.
\<close>

theorem kernels_only_modify_accumulator:
  assumes "data A \<noteq> data C" and "data B \<noteq> data C" and "data A \<noteq> y" and "x \<noteq> y"
  shows "(\<forall>K \<in> {gemm_ijk A B C, gemm_jik A B C, gemm_ikj A B C, gemm_jki A B C,
                gemm_kij A B C, gemm_kji A B C, matmul_ijk C A B, matmul_jik C A B,
                matmul_saxpy C A B, matmul_ikj C A B, matmul_outer_product C A B,
                matmul_kij C A B, matmul_ikj_inlined C A B}.
            \<forall>h'. K h = Inr h' \<longrightarrow>
              h' (data A) = h (data A) \<and> h' (data B) = h (data B) \<and>
              unchanged_except (data C) h h') \<and>
         (\<forall>h'. gemm_blocked A B C bs h = Some (Inr h') \<or>
               matmul_blocked C A B bs h = Some (Inr h') \<longrightarrow>
              h' (data A) = h (data A) \<and> h' (data B) = h (data B) \<and>
              unchanged_except (data C) h h') \<and>
         (\<forall>K \<in> {gaxpy_row_oriented A x y, gaxpy_column_oriented A x y,
                matrix_vector_mult A x y}.
            \<forall>h'. K h = Inr h' \<longrightarrow>
              h' (data A) = h (data A) \<and> h' x = h x \<and> unchanged_except y h h')"
proof -
  have g: "h' (data A) = h (data A) \<and> h' (data B) = h (data B) \<and>
      unchanged_except (data C) h h'" if "unchanged_except (data C) h h'" for h'
    using that assms(1,2) by (simp add: unchanged_except_def)
  have v: "h' (data A) = h (data A) \<and> h' x = h x \<and> unchanged_except y h h'"
    if "unchanged_except y h h'" for h'
    using that assms(3,4) by (simp add: unchanged_except_def)
  have 1: "\<forall>h'. K h = Inr h' \<longrightarrow> h' (data A) = h (data A) \<and> h' (data B) = h (data B) \<and>
      unchanged_except (data C) h h'" if "writes_only (data C) K" for K
    using writes_only_D[OF that] g by blast
  have 2: "\<forall>h'. K h = Inr h' \<longrightarrow> h' (data A) = h (data A) \<and> h' x = h x \<and>
      unchanged_except y h h'" if "writes_only y K" for K
    using writes_only_D[OF that] v by blast
  have 3: "\<forall>h'. gemm_blocked A B C bs h = Some (Inr h') \<or>
               matmul_blocked C A B bs h = Some (Inr h') \<longrightarrow>
              h' (data A) = h (data A) \<and> h' (data B) = h (data B) \<and>
              unchanged_except (data C) h h'"
    using gemm_blocked_unchanged matmul_blocked_unchanged g by blast
  show ?thesis
    using 3 1[OF writes_only_naive(1)] 1[OF writes_only_naive(2)] 1[OF writes_only_naive(3)]
      1[OF writes_only_naive(4)] 1[OF writes_only_naive(5)] 1[OF writes_only_naive(6)]
      1[OF writes_only_naive_c(1)] 1[OF writes_only_naive_c(2)] 1[OF writes_only_naive_c(3)]
      1[OF writes_only_naive_c(4)] 1[OF writes_only_naive_c(5)] 1[OF writes_only_naive_c(6)]
      1[OF writes_only_naive_c(7)]
      2[OF writes_only_gaxpy(1)] 2[OF writes_only_gaxpy(2)] 2[OF writes_only_gaxpy(3)]
    by simp
qed

theorem kernels_only_modify_accumulator_witness:
  "data exA \<noteq> data exC \<and> data exB \<noteq> data exC \<and> data exA \<noteq> 4 \<and> (3::nat) \<noteq> 4 \<and>
   (\<exists>h'. gemm_ikj exA exB exC exhv = Inr h' \<and>
      h' (data exA) = Some [1, 2, 3, 4] \<and> h' (data exB) = Some [5, 6, 7, 8] \<and>
      h' (data exC) = Some [20, 23, 44, 51]) \<and>
   (\<exists>h'. gaxpy_row_oriented exA 3 4 exhv = Inr h' \<and>
      h' (data exA) = Some [1, 2, 3, 4] \<and> h' 3 = Some [1, 1] \<and> h' 4 = Some [13, 27])"
proof -
  have d: "data exA \<noteq> data exC" "data exB \<noteq> data exC" "data exA \<noteq> 4" "(3::nat) \<noteq> 4"
    by (simp_all add: exA_def exB_def exC_def)
  note t = kernels_only_modify_accumulator[OF d, of exhv]
  have g: "gemm_ikj exA exB exC exhv = Inr (exhv(2 \<mapsto> [20, 23, 44, 51]))"
    by (simp add: gemm_ikj_def for_loop.simps madd_def mat_get_def mat_set_def buf_read_def
        buf_write_def in_range_def exA_def exB_def exC_def exhv_def)
  have v: "gaxpy_row_oriented exA 3 4 exhv = Inr (exhv(4 \<mapsto> [13, 27]))"
    by (simp add: gaxpy_row_oriented_def for_loop.simps vadd_def mat_get_def buf_read_def
        buf_write_def in_range_def exA_def exhv_def)
  from t g have 1: "(exhv(2 \<mapsto> [20, 23, 44, 51])) (data exA) = exhv (data exA) \<and>
      (exhv(2 \<mapsto> [20, 23, 44, 51])) (data exB) = exhv (data exB)"
    by blast
  from t v have 2: "(exhv(4 \<mapsto> [13, 27])) (data exA) = exhv (data exA) \<and>
      (exhv(4 \<mapsto> [13, 27])) 3 = exhv 3"
    by blast
  have e: "exhv (data exA) = Some [1, 2, 3, 4]" "exhv (data exB) = Some [5, 6, 7, 8]"
    "exhv 3 = Some [1, 1]" "data exC = 2"
    by (simp_all add: exA_def exB_def exC_def exhv_def)
  show ?thesis
    using d g v 1 2 e by simp
qed

section \<open>Random fill and construction\<close>

lemma fill_loop:
  assumes "h c = Some buf" "0 \<le> lo" "hi \<le> int (length buf)"
  shows "for_loop lo hi (\<lambda>i h. buf_write h c i (g (nat i))) h =
     Inr (h(c \<mapsto> map (\<lambda>p. if nat lo \<le> p \<and> int p < hi then g p else buf ! p) [0..<length buf]))"
  using assms
proof (induction "nat (hi - lo)" arbitrary: lo h buf rule: less_induct)
  case less
  show ?case
  proof (cases "lo < hi")
    case True
    let ?buf' = "buf[nat lo := g (nat lo)]"
    let ?h' = "h(c \<mapsto> ?buf')"
    have w: "buf_write h c lo (g (nat lo)) = Inr ?h'"
      using less.prems True by (simp add: buf_write_def)
    have "nat (hi - (lo + 1)) < nat (hi - lo)" using True by linarith
    from less.hyps[OF this, of ?h' ?buf'] less.prems
    have ih: "for_loop (lo + 1) hi (\<lambda>i h. buf_write h c i (g (nat i))) ?h' =
      Inr (?h'(c \<mapsto> map (\<lambda>p. if nat (lo + 1) \<le> p \<and> int p < hi then g p else ?buf' ! p)
                    [0..<length ?buf']))"
      by simp
    have eq: "map (\<lambda>p. if nat (lo + 1) \<le> p \<and> int p < hi then g p else ?buf' ! p) [0..<length buf] =
          map (\<lambda>p. if nat lo \<le> p \<and> int p < hi then g p else buf ! p) [0..<length buf]"
      using True less.prems by (intro nth_equalityI) (auto simp: nth_list_update)
    from ih have "for_loop (lo + 1) hi (\<lambda>i h. buf_write h c i (g (nat i))) ?h' =
      Inr (h(c \<mapsto> map (\<lambda>p. if nat (lo + 1) \<le> p \<and> int p < hi then g p else ?buf' ! p)
                    [0..<length buf]))"
      by simp
    then have "for_loop (lo + 1) hi (\<lambda>i h. buf_write h c i (g (nat i))) ?h' =
      Inr (h(c \<mapsto> map (\<lambda>p. if nat lo \<le> p \<and> int p < hi then g p else buf ! p)
                    [0..<length buf]))"
      by (simp only: eq)
    with w True show ?thesis
      by (subst for_loop.simps) simp
  next
    case False
    then have "map (\<lambda>p. if nat lo \<le> p \<and> int p < hi then g p else buf ! p) [0..<length buf] = buf"
      using less.prems by (intro nth_equalityI) auto
    moreover have "h(c \<mapsto> buf) = h" using less.prems(1) by (rule map_upd_triv)
    ultimately show ?thesis
      using False by (subst for_loop.simps) simp
  qed
qed

lemma rand_value_range:
  assumes "0 < RAND_MAX" "0 \<le> r" "r \<le> RAND_MAX"
  shows "- 1 \<le> rand_value RAND_MAX r" and "rand_value RAND_MAX r \<le> 1"
proof -
  have "0 \<le> real_of_int r / real_of_int RAND_MAX"
    using assms by simp
  moreover have "real_of_int r / real_of_int RAND_MAX \<le> 1"
    using assms by simp
  moreover have "rand_value RAND_MAX r = 2 * (real_of_int r / real_of_int RAND_MAX) - 1"
    by (simp add: rand_value_def)
  ultimately show "- 1 \<le> rand_value RAND_MAX r" and "rand_value RAND_MAX r \<le> 1"
    by linarith+
qed

text \<open>
  The two complete fill routines do what the specification says: every one of the
  \<open>rows * cols\<close> elements is assigned a drawn value, which lies in \<open>[-1, 1]\<close>.
\<close>

lemma init_random_matrix_fills:
  assumes "wf_matrix h M" and "h (data M) = Some buf"
    and "0 < RAND_MAX" and "\<forall>k. 0 \<le> rand k \<and> rand k \<le> RAND_MAX"
  shows "\<exists>buf'. init_random_matrix RAND_MAX rand M h = Inr (h(data M \<mapsto> buf')) \<and>
     int (length buf') = rows M * cols M \<and>
     (\<forall>p < length buf'. buf' ! p = rand_value RAND_MAX (rand p) \<and> - 1 \<le> buf' ! p \<and> buf' ! p \<le> 1)"
proof -
  have len: "int (length buf) = rows M * cols M"
    using assms(1,2) by (simp add: wf_matrix_def)
  let ?buf' = "map (\<lambda>p. if nat 0 \<le> p \<and> int p < rows M * cols M
      then rand_value RAND_MAX (rand p) else buf ! p) [0..<length buf]"
  have "init_random_matrix RAND_MAX rand M h = Inr (h(data M \<mapsto> ?buf'))"
    unfolding init_random_matrix_def
    using fill_loop[of h "data M" buf 0 "rows M * cols M" "\<lambda>p. rand_value RAND_MAX (rand p)"]
      assms(2) len
    by simp
  moreover have "int (length ?buf') = rows M * cols M" using len by simp
  moreover have "\<forall>p < length ?buf'. ?buf' ! p = rand_value RAND_MAX (rand p) \<and>
      - 1 \<le> ?buf' ! p \<and> ?buf' ! p \<le> 1"
    using len rand_value_range[OF assms(3)] assms(4) by auto
  ultimately show ?thesis by blast
qed

lemma fill_random_fills:
  assumes "wf_matrix h M" and "\<forall>k. - 1 \<le> dis k \<and> dis k < 1"
  shows "\<exists>buf'. fill_random dis M h = Inr (h(data M \<mapsto> buf')) \<and>
     int (length buf') = rows M * cols M \<and>
     (\<forall>p < length buf'. buf' ! p = dis p \<and> - 1 \<le> buf' ! p \<and> buf' ! p \<le> 1)"
proof -
  obtain buf where buf: "h (data M) = Some buf" "int (length buf) = rows M * cols M"
    using assms(1) by (auto simp: wf_matrix_def split: option.splits)
  have "\<forall>p < length buf. dis p \<le> 1" using assms(2) by (simp add: less_imp_le)
  then show ?thesis
    using buf assms(2)
    by (intro exI[of _ "map dis [0..<length buf]"]) (simp add: fill_random_def)
qed

text \<open>
  The routine of \<^verbatim>\<open>matrix_utils.c\<close> stops after \<open>rows\<close> elements: the others keep what
  they held.
\<close>

lemma int_random_matrix_partial:
  assumes "wf_matrix h M" and "h (data M) = Some buf" and "1 \<le> cols M"
  shows "int_random_matrix RAND_MAX rand M h =
     Inr (h(data M \<mapsto> map (\<lambda>p. if int p < rows M then rand_value RAND_MAX (rand p) else buf ! p)
                         [0..<length buf]))"
proof -
  have len: "int (length buf) = rows M * cols M" and r: "0 \<le> rows M"
    using assms(1,2) by (simp_all add: wf_matrix_def)
  have "rows M * 1 \<le> rows M * cols M"
    using r assms(3) by (intro mult_left_mono) auto
  then have "rows M \<le> int (length buf)" using len by simp
  with fill_loop[of h "data M" buf 0 "rows M" "\<lambda>p. rand_value RAND_MAX (rand p)"] assms(2)
  show ?thesis by (simp add: int_random_matrix_def)
qed

text \<open>
  C9 fails for \<^verbatim>\<open>int_random_matrix\<close>. A \<open>2 \<times> 2\<close> matrix whose buffer holds
  \<open>[5, 5, 5, 5]\<close>, filled while \<^verbatim>\<open>rand()\<close> returns 0 (with \<open>RAND_MAX = 32767\<close>), ends as
  \<open>[-1, -1, 5, 5]\<close>: the elements at offsets 2 and 3 are never assigned and are not in
  \<open>[-1, 1]\<close>.
\<close>

theorem int_random_matrix_leaves_elements:
  "int_random_matrix 32767 (\<lambda>k. 0) rxM rxh = Inr (rxh(0 \<mapsto> [- 1, - 1, 5, 5])) \<and>
   wf_matrix rxh rxM \<and> \<not> (mat_at (rxh(0 \<mapsto> [- 1, - 1, 5, 5])) rxM 1 1 \<le> 1)"
  by (simp add: int_random_matrix_def for_loop.simps buf_write_def rand_value_def
      wf_matrix_def mat_at_def mat_get_def buf_read_def in_range_def rxM_def rxh_def)

lemma create_matrix_zero:
  assumes "0 \<le> r" "0 \<le> c"
  shows "wf_matrix (h(p \<mapsto> replicate (nat (r * c)) 0)) \<lparr>rows = r, cols = c, data = p\<rparr>"
  using assms by (simp add: wf_matrix_def)

lemma mat_at_fresh:
  assumes "data M \<noteq> p"
  shows "mat_at (h(p \<mapsto> buf)) M i j = mat_at h M i j"
  using assms by (simp add: mat_at_def mat_get_frame)

lemma wf_matrix_fresh:
  assumes "wf_matrix h M" "h p = None"
  shows "wf_matrix (h(p \<mapsto> buf)) M" and "data M \<noteq> p"
  using assms by (auto simp: wf_matrix_def split: option.splits)

lemma product_into_fresh:
  assumes wfA: "wf_matrix h A" and wfB: "wf_matrix h B" and dim: "cols A = rows B"
    and fresh: "h p = None"
    and f: "\<forall>h0 C. gemm_pre h0 A B C \<longrightarrow>
       adds_into h0 (data C) (nat (rows C * cols C)) (f C) (dotp h0 A B)"
  shows "\<exists>h''. f \<lparr>rows = rows A, cols = cols B, data = p\<rparr>
            (h(p \<mapsto> replicate (nat (rows A * cols B)) 0)) = Inr h'' \<and>
     (\<forall>i j. 0 \<le> i \<and> i < rows A \<and> 0 \<le> j \<and> j < cols B \<longrightarrow>
        mat_get h'' \<lparr>rows = rows A, cols = cols B, data = p\<rparr> i j =
          Inr (\<Sum>k\<leftarrow>[0..cols A - 1]. mat_at h A i k * mat_at h B k j))"
proof -
  let ?C = "\<lparr>rows = rows A, cols = cols B, data = p\<rparr>"
  let ?z = "replicate (nat (rows A * cols B)) (0::real)"
  let ?h = "h(p \<mapsto> ?z)"
  have nn: "0 \<le> rows A" "0 \<le> cols B" using wfA wfB by (simp_all add: wf_matrix_def)
  have pre: "gemm_pre ?h A B ?C"
    using wf_matrix_fresh[OF wfA fresh] wf_matrix_fresh[OF wfB fresh] dim
      create_matrix_zero[OF nn, of h p]
    by (simp add: gemm_pre_def)
  have buf: "?h (data ?C) = Some ?z" by simp
  let ?h'' = "?h(data ?C \<mapsto> map (\<lambda>q. ?z ! q + dotp ?h A B q) [0..<length ?z])"
  have "adds_into ?h (data ?C) (nat (rows ?C * cols ?C)) (f ?C) (dotp ?h A B)"
    using f pre by blast
  from adds_dotp_result[OF pre this] have res: "f ?C ?h = Inr ?h''"
    by auto
  have "mat_get ?h'' ?C i j = Inr (\<Sum>k\<leftarrow>[0..cols A - 1]. mat_at h A i k * mat_at h B k j)"
    if ij: "0 \<le> i \<and> i < rows A \<and> 0 \<le> j \<and> j < cols B" for i j
  proof -
    have q: "0 \<le> i * cols B + j" "i * cols B + j < rows A * cols B"
      using offset_bound[of i "rows A" j "cols B"] ij by auto
    have old: "mat_at ?h ?C i j = 0"
      using ij q by (simp add: mat_at_def mat_get_def buf_read_def in_range_def)
    have ab: "mat_at ?h A i k = mat_at h A i k" "mat_at ?h B k j = mat_at h B k j" for k
      using wf_matrix_fresh(2)[OF wfA fresh] wf_matrix_fresh(2)[OF wfB fresh]
      by (simp_all add: mat_at_fresh)
    from result_elem[OF pre buf, of i j] ij show ?thesis
      by (simp only: old ab add_0)
  qed
  with res show ?thesis by blast
qed

lemma mul32_id:
  assumes "0 \<le> x * y" "x * y \<le> INT_MAX"
  shows "mul32 x y = x * y"
proof -
  have "0 \<le> x * y + 2147483648" "x * y + 2147483648 < 4294967296"
    using assms by (simp_all add: INT_MAX_def)
  then have "(x * y + 2147483648) mod 4294967296 = x * y + 2147483648"
    by (rule mod_pos_pos_trivial)
  then show ?thesis by (simp add: mul32_def int32_def)
qed

text \<open>
  What the constructors do when an allocation fails or the product is negative as an
  \<open>int\<close>: the C constructor writes through the null pointer of a failed \<^verbatim>\<open>malloc\<close>, and
  returns a matrix with null \<open>data\<close> after a failed \<^verbatim>\<open>calloc\<close>; the C++ constructor throws.
\<close>

lemma construction_failures:
  "create_matrix r c False a h = Inl NullDeref"
  "create_matrix r c True None h = Inr (\<lparr>rows = r, cols = c, data = NULL\<rparr>, h)"
  "Matrix_Matrix 65536 32768 a h = Inl LengthError"
  "0 \<le> mul32 r c \<Longrightarrow> Matrix_Matrix r c None h = Inl BadAlloc"
  by (simp_all add: create_matrix_def Matrix_Matrix_def mul32_def int32_def)

text \<open>
  C10, within the range of an \<open>int\<close>. For \<open>rows \<ge> 1\<close> and \<open>cols \<ge> 1\<close> whose product is at
  most \<open>INT_MAX\<close>, and when the allocation succeeds (the header is allocated and the
  buffer is placed at an address \<open>p\<close>), both constructors return a matrix with the given
  dimensions whose buffer has exactly \<open>rows * cols\<close> elements, all \<open>0\<close>. Hence one
  multiply of well-formed \<open>A\<close> (\<open>rows \<times> r\<close>) and \<open>B\<close> (\<open>r \<times> cols\<close>) into a freshly
  constructed accumulator leaves exactly the product in it: \<open>C[i][j]\<close> is the sum of
  \<open>A[i][k] * B[k][j]\<close> over \<open>0 \<le> k < r\<close>.
\<close>

theorem construction_zero_initializes:
  assumes "1 \<le> r" and "1 \<le> c" and "r * c \<le> INT_MAX"
  shows "\<exists>M h'. create_matrix r c True (Some p) h = Inr (M, h') \<and>
           Matrix_Matrix r c (Some p) h = Inr (M, h') \<and>
           rows M = r \<and> cols M = c \<and>
           (\<exists>buf. h' (data M) = Some buf \<and> int (length buf) = r * c \<and>
                  (\<forall>q < length buf. buf ! q = 0)) \<and>
           (wf_matrix h A \<and> wf_matrix h B \<and> cols A = rows B \<and> rows A = r \<and> cols B = c \<and>
            h p = None \<longrightarrow>
              (\<exists>h''. gemm_ijk A B M h' = Inr h'' \<and>
                 (\<forall>i j. 0 \<le> i \<and> i < r \<and> 0 \<le> j \<and> j < c \<longrightarrow>
                    mat_get h'' M i j =
                      Inr (\<Sum>k\<leftarrow>[0..cols A - 1]. mat_at h A i k * mat_at h B k j))) \<and>
              (\<exists>h''. matmul_ijk M A B h' = Inr h'' \<and>
                 (\<forall>i j. 0 \<le> i \<and> i < r \<and> 0 \<le> j \<and> j < c \<longrightarrow>
                    mat_get h'' M i j =
                      Inr (\<Sum>k\<leftarrow>[0..cols A - 1]. mat_at h A i k * mat_at h B k j))))"
proof -
  let ?M = "\<lparr>rows = r, cols = c, data = p\<rparr>"
  let ?h' = "h(p \<mapsto> replicate (nat (r * c)) 0)"
  have nn: "0 \<le> r * c" using assms by simp
  have m: "mul32 r c = r * c" using nn assms(3) by (rule mul32_id)
  have 1: "create_matrix r c True (Some p) h = Inr (?M, ?h')"
    using nn by (simp add: create_matrix_def m)
  have 2: "Matrix_Matrix r c (Some p) h = Inr (?M, ?h')"
    using nn by (simp add: Matrix_Matrix_def m)
  have 3: "\<exists>buf. ?h' (data ?M) = Some buf \<and> int (length buf) = r * c \<and>
      (\<forall>q < length buf. buf ! q = 0)"
    using nn by simp
  have 4: "(\<exists>h''. gemm_ijk A B ?M ?h' = Inr h'' \<and>
         (\<forall>i j. 0 \<le> i \<and> i < r \<and> 0 \<le> j \<and> j < c \<longrightarrow>
            mat_get h'' ?M i j =
              Inr (\<Sum>k\<leftarrow>[0..cols A - 1]. mat_at h A i k * mat_at h B k j))) \<and>
      (\<exists>h''. matmul_ijk ?M A B ?h' = Inr h'' \<and>
         (\<forall>i j. 0 \<le> i \<and> i < r \<and> 0 \<le> j \<and> j < c \<longrightarrow>
            mat_get h'' ?M i j =
              Inr (\<Sum>k\<leftarrow>[0..cols A - 1]. mat_at h A i k * mat_at h B k j)))"
    if a: "wf_matrix h A \<and> wf_matrix h B \<and> cols A = rows B \<and> rows A = r \<and> cols B = c \<and>
          h p = None"
  proof -
    have w: "wf_matrix h A" "wf_matrix h B" "cols A = rows B" "h p = None"
      and rc: "r = rows A" "c = cols B"
      using a by simp_all
    have "\<forall>h0 C. gemm_pre h0 A B C \<longrightarrow>
        adds_into h0 (data C) (nat (rows C * cols C)) (gemm_ijk A B C) (dotp h0 A B)"
      by (simp add: gemm_ijk_dotp)
    with w have g: "\<exists>h''. gemm_ijk A B \<lparr>rows = rows A, cols = cols B, data = p\<rparr>
              (h(p \<mapsto> replicate (nat (rows A * cols B)) 0)) = Inr h'' \<and>
       (\<forall>i j. 0 \<le> i \<and> i < rows A \<and> 0 \<le> j \<and> j < cols B \<longrightarrow>
          mat_get h'' \<lparr>rows = rows A, cols = cols B, data = p\<rparr> i j =
            Inr (\<Sum>k\<leftarrow>[0..cols A - 1]. mat_at h A i k * mat_at h B k j))"
      by (intro product_into_fresh[where f = "gemm_ijk A B"])
    have "\<forall>h0 C. gemm_pre h0 A B C \<longrightarrow>
        adds_into h0 (data C) (nat (rows C * cols C)) (matmul_ijk C A B) (dotp h0 A B)"
      by (simp add: matmul_ijk_dotp)
    with w have "\<exists>h''. matmul_ijk \<lparr>rows = rows A, cols = cols B, data = p\<rparr> A B
              (h(p \<mapsto> replicate (nat (rows A * cols B)) 0)) = Inr h'' \<and>
       (\<forall>i j. 0 \<le> i \<and> i < rows A \<and> 0 \<le> j \<and> j < cols B \<longrightarrow>
          mat_get h'' \<lparr>rows = rows A, cols = cols B, data = p\<rparr> i j =
            Inr (\<Sum>k\<leftarrow>[0..cols A - 1]. mat_at h A i k * mat_at h B k j))"
      by (intro product_into_fresh[where f = "\<lambda>C. matmul_ijk C A B"])
    with g show ?thesis unfolding rc by simp
  qed
  have "create_matrix r c True (Some p) h = Inr (?M, ?h') \<and>
           Matrix_Matrix r c (Some p) h = Inr (?M, ?h') \<and>
           rows ?M = r \<and> cols ?M = c \<and>
           (\<exists>buf. ?h' (data ?M) = Some buf \<and> int (length buf) = r * c \<and>
                  (\<forall>q < length buf. buf ! q = 0)) \<and>
           (wf_matrix h A \<and> wf_matrix h B \<and> cols A = rows B \<and> rows A = r \<and> cols B = c \<and>
            h p = None \<longrightarrow>
              (\<exists>h''. gemm_ijk A B ?M ?h' = Inr h'' \<and>
                 (\<forall>i j. 0 \<le> i \<and> i < r \<and> 0 \<le> j \<and> j < c \<longrightarrow>
                    mat_get h'' ?M i j =
                      Inr (\<Sum>k\<leftarrow>[0..cols A - 1]. mat_at h A i k * mat_at h B k j))) \<and>
              (\<exists>h''. matmul_ijk ?M A B ?h' = Inr h'' \<and>
                 (\<forall>i j. 0 \<le> i \<and> i < r \<and> 0 \<le> j \<and> j < c \<longrightarrow>
                    mat_get h'' ?M i j =
                      Inr (\<Sum>k\<leftarrow>[0..cols A - 1]. mat_at h A i k * mat_at h B k j))))"
    using 1 2 3 4 by (intro conjI impI) simp_all
  then show ?thesis by blast
qed

theorem construction_zero_initializes_witness:
  "(1::int) \<le> 2 \<and> (2::int) * 2 \<le> INT_MAX \<and>
   create_matrix 2 2 True (Some 2) cxh = Inr (exC, cxh(2 \<mapsto> [0, 0, 0, 0])) \<and>
   Matrix_Matrix 2 2 (Some 2) cxh = Inr (exC, cxh(2 \<mapsto> [0, 0, 0, 0])) \<and>
   wf_matrix cxh exA \<and> wf_matrix cxh exB \<and> cols exA = rows exB \<and> rows exA = 2 \<and>
   cols exB = 2 \<and> cxh 2 = None \<and>
   (\<exists>h''. gemm_ijk exA exB exC (cxh(2 \<mapsto> [0, 0, 0, 0])) = Inr h'' \<and>
      mat_get h'' exC 0 0 = Inr 19 \<and> mat_get h'' exC 1 1 = Inr 50)"
proof -
  have b: "(1::int) \<le> 2" "(2::int) * 2 \<le> INT_MAX" by (simp_all add: INT_MAX_def)
  have c: "create_matrix 2 2 True (Some 2) cxh = Inr (exC, cxh(2 \<mapsto> [0, 0, 0, 0]))"
    "Matrix_Matrix 2 2 (Some 2) cxh = Inr (exC, cxh(2 \<mapsto> [0, 0, 0, 0]))"
    by (simp_all add: create_matrix_def Matrix_Matrix_def mul32_def int32_def exC_def
        numeral_eq_Suc)
  have w: "wf_matrix cxh exA \<and> wf_matrix cxh exB \<and> cols exA = rows exB \<and> rows exA = 2 \<and>
      cols exB = 2 \<and> cxh 2 = None"
    by (simp add: wf_matrix_def exA_def exB_def cxh_def)
  from construction_zero_initializes[OF b(1) b(1) b(2), of 2 cxh exA exB] w c
  obtain h'' where h'': "gemm_ijk exA exB exC (cxh(2 \<mapsto> [0, 0, 0, 0])) = Inr h''"
    and el: "\<And>i j. 0 \<le> i \<and> i < 2 \<and> 0 \<le> j \<and> j < 2 \<Longrightarrow> mat_get h'' exC i j =
       Inr (\<Sum>k\<leftarrow>[0..cols exA - 1]. mat_at cxh exA i k * mat_at cxh exB k j)"
    by auto
  have v: "(\<Sum>k\<leftarrow>[0..cols exA - 1]. mat_at cxh exA 0 k * mat_at cxh exB k 0) = 19"
    "(\<Sum>k\<leftarrow>[0..cols exA - 1]. mat_at cxh exA 1 k * mat_at cxh exB k 1) = 50"
    by (simp_all add: upto.simps mat_at_def mat_get_def buf_read_def in_range_def
        exA_def exB_def cxh_def)
  have "mat_get h'' exC 0 0 = Inr 19" "mat_get h'' exC 1 1 = Inr 50"
    using el[of 0 0] el[of 1 1] v by simp_all
  with b c w h'' show ?thesis by blast
qed

text \<open>
  C10 as the specification words it (for every \<open>rows \<ge> 1\<close> and \<open>cols \<ge> 1\<close>) fails. The
  product \<open>rows * cols\<close> is computed as an \<open>int\<close>: for \<open>rows = cols = 65536\<close> it is \<open>2\<^sup>3\<^sup>2\<close>,
  which wraps to 0, and both constructors return a \<open>65536 \<times> 65536\<close> matrix whose buffer
  has no element at all.
\<close>

theorem construction_overflow_counterexample:
  "(1::int) \<le> 65536 \<and> mul32 65536 65536 = 0 \<and>
   Matrix_Matrix 65536 65536 (Some 1) Map.empty =
     Inr (\<lparr>rows = 65536, cols = 65536, data = 1\<rparr>, [1 \<mapsto> []]) \<and>
   create_matrix 65536 65536 True (Some 1) Map.empty =
     Inr (\<lparr>rows = 65536, cols = 65536, data = 1\<rparr>, [1 \<mapsto> []])"
  by (simp add: create_matrix_def Matrix_Matrix_def mul32_def int32_def)

end
